(* ===== verification/Prelude.thy ===== *)
theory Prelude
  imports Main "HOL-Library.Word" "HOL-Library.AList" "HOL-Library.Multiset"
    "HOL-Library.Char_ord" "HOL-Library.List_Lexorder"
begin

text \<open>
  Shared vocabulary of the development.

  A Go string is a byte sequence, so it is modelled by \<open>string\<close>, whose characters are
  bytes.  A Go \<open>int\<close>, \<open>int64\<close> or \<open>time.Duration\<close> is an \<open>int\<close>, with
  \<open>wrap64\<close> written wherever the arithmetic of the code can leave 64 bits.  A
  \<open>map[string]V\<close> is an association list with distinct keys; its order stands for one
  iteration order of the Go map, and the lemmas about code that ranges over a map show
  that the order does not matter.  A nil map is \<open>None\<close> where the code tells nil from
  empty.  An instant (\<open>time.Time\<close>) is its number of nanoseconds since the Unix epoch.
\<close>

named_theorems go_defs \<open>definitions of small operations of the Go standard library\<close>
named_theorems bound_intros \<open>length and size bounds\<close>

section \<open>Errors\<close>

text \<open>
  The error values of the program.  \<open>Panic\<close> is not an error value in Go: it stands for
  the run-time panics the code could raise (a write to a nil map, a call on a nil pointer).
\<close>

datatype gerr =
    Canceled
  | DeadlineExceeded
  | EOF
  | BufferFull
  | IOErr string
  | HTTPStatus int int string  \<comment> \<open>status, Retry-After delay, message\<close>
  | Errorf string
  | Wrap string gerr  \<comment> \<open>an error wrapped with a text before it\<close>
  | Panic string

text \<open>The text of an error, as its method \<open>Error\<close> gives it.\<close>

fun error_text :: "gerr \<Rightarrow> string" where
  "error_text Canceled = ''context canceled''"
| "error_text DeadlineExceeded = ''context deadline exceeded''"
| "error_text EOF = ''EOF''"
| "error_text BufferFull = ''bufio: buffer full''"
| "error_text (IOErr msg) = msg"
| "error_text (HTTPStatus status retryAfter msg) = msg"
| "error_text (Errorf msg) = msg"
| "error_text (Wrap msg err) = msg @ error_text err"
| "error_text (Panic msg) = msg"

text \<open>Results one after the other: the first error ends the sequence.\<close>

fun map_results :: "('a \<Rightarrow> 'e + 'b) \<Rightarrow> 'a list \<Rightarrow> 'e + 'b list" where
  "map_results f [] = Inr []"
| "map_results f (x # xs) =
     (case f x of Inl err \<Rightarrow> Inl err
      | Inr y \<Rightarrow> (case map_results f xs of Inl err \<Rightarrow> Inl err | Inr ys \<Rightarrow> Inr (y # ys)))"

lemma map_results_Inr:
  "(\<And>x. x \<in> set xs \<Longrightarrow> f x = Inr (g x)) \<Longrightarrow> map_results f xs = Inr (map g xs)"
  by (induction xs) simp_all

lemma map_results_InrD: "map_results f xs = Inr ys \<Longrightarrow> list_all2 (\<lambda>x y. f x = Inr y) xs ys"
  by (induction xs arbitrary: ys) (auto split: sum.splits)

section \<open>Integers of 64 bits\<close>

definition wrap64 :: "int \<Rightarrow> int" where
  "wrap64 x = (x + 2 ^ 63) mod 2 ^ 64 - 2 ^ 63"

lemma wrap64_id: "- (2 ^ 63) \<le> x \<Longrightarrow> x < 2 ^ 63 \<Longrightarrow> wrap64 x = x"
  by (simp add: wrap64_def)

lemma wrap64_range: "- (2 ^ 63) \<le> wrap64 x \<and> wrap64 x < 2 ^ 63"
proof -
  have "0 \<le> (x + 2 ^ 63) mod 2 ^ 64" "(x + 2 ^ 63) mod 2 ^ 64 < (2 ^ 64 :: int)"
    by simp_all
  then show ?thesis by (simp add: wrap64_def)
qed

section \<open>Time\<close>

type_synonym time = int
type_synonym duration = int

text \<open>The zero \<open>time.Time\<close>: January 1, year 1, 00:00:00 UTC.\<close>

definition zero_time :: time where
  "zero_time = - 62135596800 * 1000000000"

definition is_zero_time :: "time \<Rightarrow> bool" where
  "is_zero_time t \<longleftrightarrow> t = zero_time"

definition second :: duration where
  "second = 1000000000"

section \<open>Maps of strings\<close>

type_synonym smap = "(string \<times> string) list"

definition map_ok :: "('k \<times> 'v) list \<Rightarrow> bool" where
  "map_ok m \<longleftrightarrow> distinct (map fst m)"

definition map_set :: "'k \<Rightarrow> 'v \<Rightarrow> ('k \<times> 'v) list \<Rightarrow> ('k \<times> 'v) list" where
  "map_set k v m = AList.update k v m"

text \<open>Reading a missing key of a \<open>map[string]string\<close> gives the empty string.\<close>

definition map_get :: "smap \<Rightarrow> string \<Rightarrow> string" where
  "map_get m k = (case map_of m k of None \<Rightarrow> [] | Some v \<Rightarrow> v)"

lemma map_of_map_set [simp]: "map_of (map_set k v m) = (map_of m)(k \<mapsto> v)"
  by (simp add: map_set_def update_conv')

lemma map_ok_set [simp]: "map_ok m \<Longrightarrow> map_ok (map_set k v m)"
  by (simp add: map_ok_def map_set_def distinct_update)

lemma map_ok_Nil [simp]: "map_ok []"
  by (simp add: map_ok_def)

lemma map_ok_Cons [simp]: "map_ok ((k, v) # m) \<longleftrightarrow> k \<notin> fst ` set m \<and> map_ok m"
  by (simp add: map_ok_def)

lemma keys_map_set: "fst ` set (map_set k v m) = insert k (fst ` set m)"
  by (metis dom_fun_upd dom_map_of_conv_image_fst map_of_map_set option.distinct(1))

lemma map_get_set [simp]: "map_get (map_set k v m) j = (if j = k then v else map_get m j)"
  by (simp add: map_get_def)

lemma mset_map_eqI:
  assumes "map_ok m" "map_ok m'" "map_of m = map_of m'"
  shows "mset m = mset m'"
proof (rule set_eq_iff_mset_eq_distinct [THEN iffD1])
  show "distinct m" "distinct m'"
    using assms(1,2) by (auto simp: map_ok_def distinct_map)
  show "set m = set m'"
    using assms by (simp add: map_of_inject_set map_ok_def)
qed

section \<open>Lists\<close>

lemma concat_map_if: "concat (map (\<lambda>x. if P x then [f x] else []) xs) = map f (filter P xs)"
  by (induction xs) auto

lemma append_first_eq:
  "x \<notin> set xs \<Longrightarrow> x \<notin> set xs' \<Longrightarrow> xs @ x # ys = xs' @ x # ys' \<longleftrightarrow> xs = xs' \<and> ys = ys'"
proof (induction xs arbitrary: xs')
  case Nil
  then show ?case by (cases xs') auto
next
  case (Cons a xs)
  then show ?case by (cases xs') auto
qed

end
