(* ===== verification/GoText.thy ===== *)
theory GoText
  imports Prelude
begin

text \<open>
  The part of the Go language and of the packages \<open>strings\<close> and \<open>unicode/utf8\<close> the
  program uses: conversions between byte strings and rune sequences as the language
  defines them (an invalid byte decodes to \<open>RuneError\<close> with width 1, an invalid rune
  encodes as \<open>RuneError\<close>), and the byte-level string functions.
\<close>

section \<open>Runes\<close>

type_synonym rune = nat

definition RuneError :: rune where
  "RuneError = 65533"

definition valid_rune :: "rune \<Rightarrow> bool" where
  "valid_rune r \<longleftrightarrow> r < 55296 \<or> (57344 \<le> r \<and> r \<le> 1114111)"

abbreviation byte :: "char \<Rightarrow> nat" where
  "byte c \<equiv> of_char c"

definition cont_byte :: "char \<Rightarrow> bool" where
  "cont_byte c \<longleftrightarrow> 128 \<le> byte c \<and> byte c \<le> 191"

text \<open>The range of the second byte of a sequence that starts with the byte \<open>b\<close>.\<close>

definition accept_lo :: "nat \<Rightarrow> nat" where
  "accept_lo b = (if b = 224 then 160 else if b = 240 then 144 else 128)"

definition accept_hi :: "nat \<Rightarrow> nat" where
  "accept_hi b = (if b = 237 then 159 else if b = 244 then 143 else 191)"

definition accept2 :: "nat \<Rightarrow> char \<Rightarrow> bool" where
  "accept2 b c \<longleftrightarrow> accept_lo b \<le> byte c \<and> byte c \<le> accept_hi b"

text \<open>The first rune of a string and the number of bytes it takes.\<close>

definition decode2 :: "nat \<Rightarrow> string \<Rightarrow> rune \<times> nat" where
  "decode2 b cs = (case cs of c1 # _ \<Rightarrow>
       if cont_byte c1 then ((b - 192) * 64 + (byte c1 - 128), 2) else (RuneError, 1)
     | _ \<Rightarrow> (RuneError, 1))"

definition decode3 :: "nat \<Rightarrow> string \<Rightarrow> rune \<times> nat" where
  "decode3 b cs = (case cs of c1 # c2 # _ \<Rightarrow>
       if accept2 b c1 \<and> cont_byte c2
       then ((b - 224) * 4096 + (byte c1 - 128) * 64 + (byte c2 - 128), 3)
       else (RuneError, 1)
     | _ \<Rightarrow> (RuneError, 1))"

definition decode4 :: "nat \<Rightarrow> string \<Rightarrow> rune \<times> nat" where
  "decode4 b cs = (case cs of c1 # c2 # c3 # _ \<Rightarrow>
       if accept2 b c1 \<and> cont_byte c2 \<and> cont_byte c3
       then ((b - 240) * 262144 + (byte c1 - 128) * 4096 + (byte c2 - 128) * 64
               + (byte c3 - 128), 4)
       else (RuneError, 1)
     | _ \<Rightarrow> (RuneError, 1))"

definition decode_first :: "char \<Rightarrow> string \<Rightarrow> rune \<times> nat" where
  "decode_first c cs =
     (let b = byte c in
      if b < 128 then (b, 1)
      else if 194 \<le> b \<and> b \<le> 223 then decode2 b cs
      else if 224 \<le> b \<and> b \<le> 239 then decode3 b cs
      else if 240 \<le> b \<and> b \<le> 244 then decode4 b cs
      else (RuneError, 1))"

lemmas decode_defs = decode_first_def decode2_def decode3_def decode4_def Let_def

lemma decode_width: "1 \<le> snd (decode_first c cs) \<and> snd (decode_first c cs) \<le> Suc (length cs)"
  by (auto simp: decode_defs split: list.splits)

lemma decode_width4: "snd (decode_first c cs) \<le> 4"
  by (auto simp: decode_defs split: list.splits)

text \<open>A string as the sequence of its runes, each with the bytes it was read from.\<close>

function chunks :: "string \<Rightarrow> (rune \<times> string) list" where
  "chunks [] = []"
| "chunks (c # cs) =
     (fst (decode_first c cs), take (snd (decode_first c cs)) (c # cs))
       # chunks (drop (snd (decode_first c cs)) (c # cs))"
  by pat_completeness auto
termination
proof (relation "measure length")
  fix c cs
  show "(drop (snd (decode_first c cs)) (c # cs), c # cs) \<in> measure length"
    using decode_width [of c cs] by simp
qed simp

declare chunks.simps(2) [simp del]

lemmas chunks_Cons = chunks.simps(2)

definition runes :: "string \<Rightarrow> rune list" where
  "runes s = map fst (chunks s)"

definition rune_len :: "string \<Rightarrow> nat" where
  "rune_len s = length (runes s)"

text \<open>Encoding, as the conversion \<open>string(r)\<close> does it.\<close>

definition encode_rune :: "rune \<Rightarrow> string" where
  "encode_rune r0 =
     (let r = (if valid_rune r0 then r0 else RuneError) in
      if r < 128 then [char_of r]
      else if r < 2048 then [char_of (192 + r div 64), char_of (128 + r mod 64)]
      else if r < 65536 then
        [char_of (224 + r div 4096), char_of (128 + r div 64 mod 64), char_of (128 + r mod 64)]
      else [char_of (240 + r div 262144), char_of (128 + r div 4096 mod 64),
            char_of (128 + r div 64 mod 64), char_of (128 + r mod 64)])"

definition of_runes :: "rune list \<Rightarrow> string" where
  "of_runes rs = concat (map encode_rune rs)"

section \<open>Laws of the conversions\<close>

lemma concat_chunks: "concat (map snd (chunks s)) = s"
  by (induction s rule: chunks.induct) (simp_all add: chunks_Cons)

lemma runes_Nil [simp]: "runes [] = []"
  by (simp add: runes_def)

lemma runes_Cons:
  "runes (c # cs) = fst (decode_first c cs) # runes (drop (snd (decode_first c cs)) (c # cs))"
  by (simp add: runes_def chunks_Cons)

lemma rune_len_Nil [simp]: "rune_len [] = 0"
  by (simp add: rune_len_def)

lemma rune_len_Cons:
  "rune_len (c # cs) = Suc (rune_len (drop (snd (decode_first c cs)) (c # cs)))"
  by (simp add: rune_len_def runes_Cons)

lemma chunks_width: "(r, bs) \<in> set (chunks s) \<Longrightarrow> 1 \<le> length bs \<and> length bs \<le> 4"
proof (induction s rule: chunks.induct)
  case (2 c cs)
  have "1 \<le> length (take (snd (decode_first c cs)) (c # cs))"
    "length (take (snd (decode_first c cs)) (c # cs)) \<le> 4"
    using decode_width [of c cs] decode_width4 [of c cs] by auto
  with 2 show ?case by (auto simp: chunks_Cons)
qed simp

lemma rune_len_le: "rune_len s \<le> length s"
proof (induction s rule: chunks.induct)
  case (2 c cs)
  then show ?case
    using decode_width [of c cs] by (simp add: rune_len_Cons) arith
qed simp

lemma cont_byteE:
  assumes "cont_byte c"
  obtains x where "byte c = 128 + x" "x < 64"
  using assms by (intro that [of "byte c - 128"]) (auto simp: cont_byte_def)

lemma accept2_cont: "accept2 b c \<Longrightarrow> cont_byte c"
  by (simp add: accept2_def accept_lo_def accept_hi_def cont_byte_def split: if_splits)

text \<open>The lead byte alone chooses the kind of sequence.\<close>

lemma decode_first_cases:
  obtains "byte c < 128" "\<And>cs. decode_first c cs = (byte c, 1)"
    | "194 \<le> byte c" "byte c \<le> 223" "\<And>cs. decode_first c cs = decode2 (byte c) cs"
    | "224 \<le> byte c" "byte c \<le> 239" "\<And>cs. decode_first c cs = decode3 (byte c) cs"
    | "240 \<le> byte c" "byte c \<le> 244" "\<And>cs. decode_first c cs = decode4 (byte c) cs"
    | "\<And>cs. decode_first c cs = (RuneError, 1)"
proof -
  consider "byte c < 128" | "194 \<le> byte c" "byte c \<le> 223" | "224 \<le> byte c" "byte c \<le> 239"
    | "240 \<le> byte c" "byte c \<le> 244" | "128 \<le> byte c" "byte c < 194" | "244 < byte c"
    by linarith
  then show thesis by cases (simp_all add: decode_first_def that)
qed

lemma valid_RuneError: "valid_rune RuneError"
  by (simp add: valid_rune_def RuneError_def)

lemma decode2_valid:
  assumes "194 \<le> b" "b \<le> 223"
  shows "valid_rune (fst (decode2 b cs))"
proof -
  obtain k where "b = 192 + k" "k \<le> 31"
    using assms by (intro that [of "b - 192"]) simp_all
  then show ?thesis
    by (auto simp: decode2_def valid_RuneError elim!: cont_byteE split: list.split)
       (simp add: valid_rune_def)
qed

lemma decode3_valid:
  assumes "224 \<le> b" "b \<le> 239"
  shows "valid_rune (fst (decode3 b cs))"
proof -
  have "valid_rune ((b - 224) * 4096 + (byte c - 128) * 64 + (byte d - 128))"
    if cd: "accept2 b c" "cont_byte d" for c d
  proof -
    obtain y where y: "byte d = 128 + y" "y < 64" using cd(2) by (rule cont_byteE)
    obtain x where x: "byte c = 128 + x" "x < 64" using cd(1) by (blast dest: accept2_cont elim: cont_byteE)
    obtain k where k: "b = 224 + k" "k \<le> 15"
      using assms by (intro that [of "b - 224"]) simp_all
    have "k = 13 \<Longrightarrow> x < 32" using cd(1) k x by (simp add: accept2_def accept_hi_def)
    then consider "k < 13" | "k = 13" "x < 32" | "13 < k" by linarith
    then show ?thesis using k x y by cases (simp_all add: valid_rune_def)
  qed
  then show ?thesis by (auto simp: decode3_def valid_RuneError split: list.split)
qed

lemma decode4_valid:
  assumes "240 \<le> b" "b \<le> 244"
  shows "valid_rune (fst (decode4 b cs))"
proof -
  have "valid_rune ((b - 240) * 262144 + (byte c - 128) * 4096 + (byte d - 128) * 64 + (byte e - 128))"
    if cd: "accept2 b c" "cont_byte d" "cont_byte e" for c d e
  proof -
    obtain y where y: "byte d = 128 + y" "y < 64" using cd(2) by (rule cont_byteE)
    obtain z where z: "byte e = 128 + z" "z < 64" using cd(3) by (rule cont_byteE)
    obtain x where x: "byte c = 128 + x" "x < 64" using cd(1) by (blast dest: accept2_cont elim: cont_byteE)
    obtain k where k: "b = 240 + k" "k \<le> 4"
      using assms by (intro that [of "b - 240"]) simp_all
    have "k = 0 \<Longrightarrow> 16 \<le> x" "k = 4 \<Longrightarrow> x < 16"
      using cd(1) k x by (simp_all add: accept2_def accept_hi_def accept_lo_def)
    then consider "k = 0" "16 \<le> x" | "0 < k" "k < 4" | "k = 4" "x < 16"
      using k(2) by linarith
    then show ?thesis using k x y z by cases (simp_all add: valid_rune_def)
  qed
  then show ?thesis by (auto simp: decode4_def valid_RuneError split: list.split)
qed

lemma decode_valid: "valid_rune (fst (decode_first c cs))"
  by (cases c rule: decode_first_cases)
     (simp_all add: decode2_valid decode3_valid decode4_valid valid_RuneError,
       simp add: valid_rune_def)

lemma runes_valid: "r \<in> set (runes s) \<Longrightarrow> valid_rune r"
proof (induction s rule: chunks.induct)
  case (2 c cs)
  then show ?case
    using decode_valid [of c cs] by (auto simp: runes_Cons)
qed simp

text \<open>Decoding looks at no more than four bytes, and at no more than it consumes when it
  consumes more than one.\<close>

lemma decode_take: "3 \<le> n \<Longrightarrow> decode_first c (take n cs) = decode_first c cs"
proof -
  assume "3 \<le> n"
  then obtain m where "n = Suc (Suc (Suc m))"
    by (metis Suc_le_D numeral_3_eq_3 Suc_le_mono)
  then show ?thesis
    by (auto simp: decode_defs split: list.splits)
qed

lemma decode2_append:
  "snd (decode2 b (cs @ ds)) \<le> Suc (length cs) \<Longrightarrow> decode2 b (cs @ ds) = decode2 b cs"
  by (cases cs) (auto simp: decode2_def split: list.splits if_splits)

lemma decode3_append:
  "snd (decode3 b (cs @ ds)) \<le> Suc (length cs) \<Longrightarrow> decode3 b (cs @ ds) = decode3 b cs"
  by (cases cs; cases "tl cs") (auto simp: decode3_def split: list.splits if_splits)

lemma decode4_append:
  "snd (decode4 b (cs @ ds)) \<le> Suc (length cs) \<Longrightarrow> decode4 b (cs @ ds) = decode4 b cs"
  by (cases cs; cases "tl cs"; cases "tl (tl cs)") (auto simp: decode4_def split: list.splits if_splits)

lemma decode_append:
  "snd (decode_first c (cs @ b)) \<le> Suc (length cs) \<Longrightarrow>
     decode_first c (cs @ b) = decode_first c cs"
  by (cases c rule: decode_first_cases) (auto intro: decode2_append decode3_append decode4_append)

lemma decode_tail_cont: "d \<in> set (take (snd (decode_first c cs) - 1) cs) \<Longrightarrow> cont_byte d"
  by (cases c rule: decode_first_cases)
     (auto simp: decode2_def decode3_def decode4_def dest: accept2_cont split: list.splits if_splits)

lemma decode_crossing:
  "\<forall>d \<in> set (take (snd (decode_first c (cs @ b)) - Suc (length cs)) b). cont_byte d"
  using decode_tail_cont [of _ c "cs @ b"] by auto

lemma decode_cont: "cont_byte c \<Longrightarrow> decode_first c cs = (RuneError, 1)"
  by (auto simp: decode_defs cont_byte_def)

lemma rune_len_drop_cont:
  "\<forall>d \<in> set (take j b). cont_byte d \<Longrightarrow> rune_len (drop j b) \<le> rune_len b"
proof (induction j arbitrary: b)
  case (Suc j)
  show ?case
  proof (cases b)
    case (Cons d ds)
    with Suc.prems have "cont_byte d" "\<forall>x \<in> set (take j ds). cont_byte x" by auto
    with Cons Suc.IH [of ds] show ?thesis by (simp add: rune_len_Cons decode_cont)
  qed simp
qed simp

text \<open>Concatenation never needs more runes than its parts.\<close>

lemma rune_len_append: "rune_len (a @ b) \<le> rune_len a + rune_len b"
proof (induction a rule: chunks.induct)
  case (2 c cs)
  let ?w = "snd (decode_first c (cs @ b))"
  show ?case
  proof (cases "?w \<le> Suc (length cs)")
    case True
    then have d: "decode_first c (cs @ b) = decode_first c cs" by (rule decode_append)
    with True have "drop ?w ((c # cs) @ b) = drop ?w (c # cs) @ b" by (simp del: append_Cons)
    with 2 d show ?thesis by (simp add: rune_len_Cons)
  next
    case False
    then have "drop ?w ((c # cs) @ b) = drop (?w - Suc (length cs)) b"
      by (simp del: append_Cons)
    then have "rune_len ((c # cs) @ b) = Suc (rune_len (drop (?w - Suc (length cs)) b))"
      by (simp add: rune_len_Cons)
    also have "\<dots> \<le> Suc (rune_len b)"
      using False by (simp add: rune_len_drop_cont [OF decode_crossing])
    finally show ?thesis by (simp add: rune_len_Cons)
  qed
qed simp

text \<open>A prefix of \<open>4 * n\<close> bytes has the same first \<open>n\<close> runes as the whole string.\<close>

lemma take_runes_prefix:
  "4 * n \<le> m \<Longrightarrow> take n (runes (take m s)) = take n (runes s)"
proof (induction n arbitrary: m s)
  case (Suc n)
  show ?case
  proof (cases s)
    case (Cons c cs)
    obtain m' where m: "m = Suc m'" "3 \<le> m'" using Suc.prems by (cases m) auto
    let ?w = "snd (decode_first c cs)"
    have w: "1 \<le> ?w" "?w \<le> 4" using decode_width [of c cs] decode_width4 [of c cs] by auto
    have "take n (runes (take (m - ?w) (drop ?w s))) = take n (runes (drop ?w s))"
      using Suc.prems w by (intro Suc.IH) simp
    moreover have "drop ?w (take m s) = take (m - ?w) (drop ?w s)" by (rule drop_take)
    ultimately show ?thesis
      using Cons m by (simp add: runes_Cons decode_take)
  qed simp
qed simp

section \<open>Encoding is inverse to decoding\<close>

lemma split_base64:
  fixes r :: nat
  obtains a b c where "r = a * 4096 + b * 64 + c" "b < 64" "c < 64"
    "r div 64 = a * 64 + b" "r div 4096 = a" "r div 64 mod 64 = b" "r mod 64 = c"
proof -
  define a b c where "a = r div 4096" and "b = r div 64 mod 64" and "c = r mod 64"
  have "r div 4096 = r div 64 div 64" by (simp add: div_mult2_eq [symmetric])
  then have "r div 64 = a * 64 + b" unfolding a_def b_def by (metis div_mult_mod_eq)
  moreover have "r = r div 64 * 64 + c" unfolding c_def by (rule div_mult_mod_eq [symmetric])
  ultimately have "r = a * 4096 + b * 64 + c" by simp
  moreover have "b < 64" "c < 64" "r div 4096 = a" "r div 64 mod 64 = b" "r mod 64 = c"
    by (simp_all add: a_def b_def c_def)
  ultimately show thesis using \<open>r div 64 = a * 64 + b\<close> by (intro that [of a b c])
qed

lemma cont_char: "(x :: nat) < 64 \<Longrightarrow> cont_byte (char_of (128 + x))"
  by (simp add: cont_byte_def)

lemma decode2_encoded: "y < 64 \<Longrightarrow> decode2 b (char_of (128 + y) # s) = ((b - 192) * 64 + y, 2)"
  by (simp add: decode2_def cont_char)

lemma decode3_encoded:
  "y < 64 \<Longrightarrow> z < 64 \<Longrightarrow> accept2 b (char_of (128 + y)) \<Longrightarrow>
     decode3 b (char_of (128 + y) # char_of (128 + z) # s) = ((b - 224) * 4096 + y * 64 + z, 3)"
  by (simp add: decode3_def cont_char)

lemma decode4_encoded:
  "x < 64 \<Longrightarrow> y < 64 \<Longrightarrow> z < 64 \<Longrightarrow> accept2 b (char_of (128 + x)) \<Longrightarrow>
     decode4 b (char_of (128 + x) # char_of (128 + y) # char_of (128 + z) # s) =
       ((b - 240) * 262144 + x * 4096 + y * 64 + z, 4)"
  by (simp add: decode4_def cont_char)

lemma decode_encode:
  assumes "valid_rune r" "encode_rune r = c # cs"
  shows "decode_first c (cs @ s) = (r, length (encode_rune r))"
proof -
  obtain x y z where r: "r = x * 4096 + y * 64 + z" "y < 64" "z < 64"
    "r div 64 = x * 64 + y" "r div 4096 = x" "r div 64 mod 64 = y" "r mod 64 = z"
    by (rule split_base64)
  consider "r < 128" | "128 \<le> r" "r < 2048" | "2048 \<le> r" "r < 65536" | "65536 \<le> r"
    by linarith
  then show ?thesis
  proof cases
    case 1
    with assms show ?thesis by (auto simp: encode_rune_def decode_first_def)
  next
    case 2
    with r(1) have x0: "x = 0" by linarith
    with 2 r(1,3) have "2 \<le> y" "y < 32" by simp_all
    note x = x0 this
    have e: "encode_rune r = [char_of (192 + y), char_of (128 + z)]"
      using 2 assms(1) r(4,7) x by (simp add: encode_rune_def)
    with assms(2) have "c = char_of (192 + y)" "cs = [char_of (128 + z)]" by simp_all
    with x r(1-3) have "decode_first c (cs @ s) = (r, 2)"
      by (simp add: decode_first_def decode2_encoded)
    then show ?thesis by (simp add: e)
  next
    case 3
    with r(1) have x: "x < 16" by linarith
    have acc: "accept2 (224 + x) (char_of (128 + y))"
      using 3 assms(1) r(1,2,3) by (auto simp: accept2_def accept_lo_def accept_hi_def valid_rune_def)
    have e: "encode_rune r = [char_of (224 + x), char_of (128 + y), char_of (128 + z)]"
      using 3 assms(1) r(4-7) by (simp add: encode_rune_def)
    with assms(2) have "c = char_of (224 + x)" "cs = [char_of (128 + y), char_of (128 + z)]"
      by simp_all
    with x r(1-3) acc have "decode_first c (cs @ s) = (r, 3)"
      by (simp add: decode_first_def decode3_encoded)
    then show ?thesis by (simp add: e)
  next
    case 4
    define u v where "u = x div 64" and "v = x mod 64"
    have x: "x = u * 64 + v" "v < 64" "r div 262144 = u" "r div 4096 mod 64 = v"
      using r(5) by (simp_all add: u_def v_def div_mult2_eq [symmetric])
    have u: "u \<le> 4" using assms(1) 4 r(1) x(1) by (simp add: valid_rune_def)
    have acc: "accept2 (240 + u) (char_of (128 + v))"
      using 4 assms(1) r(1,2,3) x(1,2)
      by (auto simp: accept2_def accept_lo_def accept_hi_def valid_rune_def)
    have e: "encode_rune r =
        [char_of (240 + u), char_of (128 + v), char_of (128 + y), char_of (128 + z)]"
      using 4 assms(1) r(6,7) x(3,4) by (simp add: encode_rune_def)
    with assms(2) have
      "c = char_of (240 + u)" "cs = [char_of (128 + v), char_of (128 + y), char_of (128 + z)]"
      by simp_all
    with x(1,2) u r(1-3) acc have "decode_first c (cs @ s) = (r, 4)"
      by (simp add: decode_first_def decode4_encoded)
    then show ?thesis by (simp add: e)
  qed
qed

lemma encode_nonempty: "encode_rune r \<noteq> []"
  by (simp add: encode_rune_def Let_def)

lemma length_encode: "length (encode_rune r) \<le> 4"
  by (simp add: encode_rune_def Let_def)

lemma chunks_encode:
  assumes "valid_rune r"
  shows "chunks (encode_rune r @ s) = (r, encode_rune r) # chunks s"
proof -
  obtain c cs where e: "encode_rune r = c # cs"
    using encode_nonempty [of r] by (cases "encode_rune r") auto
  show ?thesis
    using decode_encode [OF assms e, of s] by (simp add: e chunks_Cons)
qed

lemma runes_encode: "valid_rune r \<Longrightarrow> runes (encode_rune r @ s) = r # runes s"
  by (simp add: runes_def chunks_encode)

lemma runes_of_runes_append:
  "\<forall>r \<in> set rs. valid_rune r \<Longrightarrow> runes (of_runes rs @ s) = rs @ runes s"
  by (induction rs) (simp_all add: of_runes_def runes_encode)

lemma runes_of_runes: "\<forall>r \<in> set rs. valid_rune r \<Longrightarrow> runes (of_runes rs) = rs"
  using runes_of_runes_append [of rs "[]"] by simp

lemma length_of_runes: "length (of_runes rs) \<le> 4 * length rs"
proof (induction rs)
  case (Cons r rs)
  then show ?case using length_encode [of r] by (simp add: of_runes_def)
qed (simp add: of_runes_def)

text \<open>Valid UTF-8: re-encoding the runes gives the string back.\<close>

definition valid_utf8 :: "string \<Rightarrow> bool" where
  "valid_utf8 s \<longleftrightarrow> of_runes (runes s) = s"

lemma valid_utf8_of_runes: "\<forall>r \<in> set rs. valid_rune r \<Longrightarrow> valid_utf8 (of_runes rs)"
  by (simp add: valid_utf8_def runes_of_runes)

section \<open>ASCII\<close>

lemma encode_ascii: "r < 128 \<Longrightarrow> encode_rune r = [char_of r]"
  by (simp add: encode_rune_def valid_rune_def)

lemma of_runes_bytes: "\<forall>c \<in> set w. byte c < 128 \<Longrightarrow> of_runes (map of_char w) = w"
  by (induction w) (simp_all add: of_runes_def encode_ascii)

lemma decode3_big:
  assumes "224 \<le> b" shows "128 \<le> fst (decode3 b cs)"
proof -
  have "128 \<le> (b - 224) * 4096 + (byte c - 128) * 64" if "accept2 b c" for c
    using that assms by (cases "b = 224") (auto simp: accept2_def accept_lo_def)
  then have "accept2 b c \<Longrightarrow> 128 \<le> (b - 224) * 4096 + (byte c - 128) * 64 + n" for c n
    by (meson trans_le_add1)
  then show ?thesis by (simp add: decode3_def RuneError_def split: list.split)
qed

lemma decode4_big:
  assumes "240 \<le> b" shows "128 \<le> fst (decode4 b cs)"
proof -
  have "128 \<le> (b - 240) * 262144 + (byte c - 128) * 4096" if "accept2 b c" for c
    using that assms by (cases "b = 240") (auto simp: accept2_def accept_lo_def)
  then have "accept2 b c \<Longrightarrow> 128 \<le> (b - 240) * 262144 + (byte c - 128) * 4096 + m + n" for c m n
    by (meson trans_le_add1)
  then show ?thesis by (simp add: decode4_def RuneError_def split: list.split)
qed

lemma decode2_big: "194 \<le> b \<Longrightarrow> 128 \<le> fst (decode2 b cs)"
  by (auto simp: decode2_def RuneError_def split: list.split)

lemma decode_ascii: "fst (decode_first c cs) < 128 \<Longrightarrow> decode_first c cs = (byte c, 1)"
  using decode2_big [of "byte c" cs] decode3_big [of "byte c" cs] decode4_big [of "byte c" cs]
  by (cases c rule: decode_first_cases) (simp_all add: RuneError_def)

lemma chunks_ascii: "(r, bs) \<in> set (chunks s) \<Longrightarrow> r < 128 \<Longrightarrow> bs = [char_of r]"
proof (induction s rule: chunks.induct)
  case (2 c cs)
  show ?case
  proof (cases "(r, bs) = (fst (decode_first c cs), take (snd (decode_first c cs)) (c # cs))")
    case True
    with 2 decode_ascii [of c cs] show ?thesis by simp
  next
    case False
    with 2 show ?thesis by (auto simp: chunks_Cons)
  qed
qed simp

lemma concat_ascii_chunks:
  assumes "set seg \<subseteq> set (chunks s)" "\<forall>r \<in> set (map fst seg). r < 128"
  shows "concat (map snd seg) = of_runes (map fst seg)"
  using assms
proof (induction seg)
  case (Cons x seg)
  obtain r bs where "x = (r, bs)" by (cases x)
  with Cons chunks_ascii [of r bs s] show ?case by (simp add: of_runes_def encode_ascii)
qed (simp add: of_runes_def)

lemma runes_of_bytes: "\<forall>c \<in> set w. byte c < 128 \<Longrightarrow> runes w = map of_char w"
proof -
  assume w: "\<forall>c \<in> set w. byte c < 128"
  then have "runes (of_runes (map of_char w)) = map of_char w"
    by (intro runes_of_runes) (fastforce simp: valid_rune_def)
  with w show ?thesis by (simp add: of_runes_bytes)
qed

end
