(* ===== verification/GoStrings.thy ===== *)
theory GoStrings
  imports GoText
begin

text \<open>
  The functions of the packages \<open>strings\<close> and \<open>encoding/hex\<close> the program calls, on byte
  strings.  Separators are single bytes, as everywhere in the program.  The upper-case
  mapping of runes outside ASCII is a table of the Go release, and so an argument
  (\<open>uc\<close>) of \<open>to_upper\<close>.
\<close>

abbreviation newline :: char where "newline \<equiv> CHR 0x0A"
abbreviation carriage_return :: char where "carriage_return \<equiv> CHR 0x0D"

section \<open>Prefixes and suffixes\<close>

definition has_suffix :: "string \<Rightarrow> string \<Rightarrow> bool" where
  "has_suffix s suf \<longleftrightarrow> length suf \<le> length s \<and> drop (length s - length suf) s = suf"

definition trim_suffix :: "string \<Rightarrow> string \<Rightarrow> string" where
  "trim_suffix s suf = (if has_suffix s suf then take (length s - length suf) s else s)"

definition has_prefix :: "string \<Rightarrow> string \<Rightarrow> bool" where
  "has_prefix s pre \<longleftrightarrow> take (length pre) s = pre"

definition trim_prefix :: "string \<Rightarrow> string \<Rightarrow> string" where
  "trim_prefix s pre = (if has_prefix s pre then drop (length pre) s else s)"

fun contains :: "string \<Rightarrow> string \<Rightarrow> bool" where
  "contains [] sub = (sub = [])"
| "contains (c # cs) sub = (has_prefix (c # cs) sub \<or> contains cs sub)"

lemma contains_iff: "contains s sub \<longleftrightarrow> (\<exists>a b. s = a @ sub @ b)"
proof (induction s)
  case (Cons c cs)
  have "has_prefix (c # cs) sub \<longleftrightarrow> (\<exists>b. c # cs = sub @ b)"
    unfolding has_prefix_def by (metis append_eq_conv_conj append_take_drop_id)
  moreover have "(\<exists>a b. c # cs = a @ sub @ b) \<longleftrightarrow>
      (\<exists>b. c # cs = sub @ b) \<or> (\<exists>a b. cs = a @ sub @ b)"
    by (metis append_Cons append_eq_Cons_conv append_self_conv2)
  ultimately show ?case using Cons by simp
qed simp

lemma trim_suffix_append [simp]: "trim_suffix (s @ suf) suf = s"
  by (simp add: trim_suffix_def has_suffix_def)

lemma trim_suffix_idle: "\<not> has_suffix s suf \<Longrightarrow> trim_suffix s suf = s"
  by (simp add: trim_suffix_def)

lemma length_trim_suffix: "length (trim_suffix s suf) \<le> length s"
  by (simp add: trim_suffix_def)

lemma has_suffix_single: "has_suffix s [c] \<longleftrightarrow> s \<noteq> [] \<and> last s = c"
proof (cases s rule: rev_cases)
  case (snoc ys y)
  then show ?thesis by (simp add: has_suffix_def)
qed (simp add: has_suffix_def)

lemma trim_suffix_single:
  "trim_suffix s [c] = (if s \<noteq> [] \<and> last s = c then butlast s else s)"
  by (simp add: trim_suffix_def has_suffix_single butlast_conv_take)

section \<open>Splitting\<close>

text \<open>\<open>strings.SplitN(s, sep, n)\<close> for \<open>n > 0\<close> and \<open>strings.Split(s, sep)\<close>.\<close>

fun split_n :: "nat \<Rightarrow> char \<Rightarrow> string \<Rightarrow> string list" where
  "split_n 0 c s = []"
| "split_n (Suc 0) c s = [s]"
| "split_n (Suc (Suc n)) c s =
     (if c \<in> set s
      then takeWhile (\<lambda>x. x \<noteq> c) s # split_n (Suc n) c (tl (dropWhile (\<lambda>x. x \<noteq> c) s))
      else [s])"

fun split_all :: "char \<Rightarrow> string \<Rightarrow> string list" where
  "split_all c [] = [[]]"
| "split_all c (x # xs) =
     (if x = c then [] # split_all c xs
      else (case split_all c xs of [] \<Rightarrow> [[x]] | y # ys \<Rightarrow> (x # y) # ys))"

text \<open>Joining, used to state what splitting and multi-line merging do.\<close>

fun join :: "string \<Rightarrow> string list \<Rightarrow> string" where
  "join sep [] = []"
| "join sep [x] = x"
| "join sep (x # y # ys) = x @ sep @ join sep (y # ys)"

lemma split_all_nonempty: "split_all c s \<noteq> []"
  by (induction s) (auto split: list.split)

lemma join_Cons: "ys \<noteq> [] \<Longrightarrow> join sep (x # ys) = x @ sep @ join sep ys"
  by (cases ys) auto

lemma join_split_all: "join [c] (split_all c s) = s"
proof (induction s)
  case (Cons x xs)
  show ?case
  proof (cases "x = c")
    case True
    with Cons show ?thesis by (simp add: join_Cons split_all_nonempty)
  next
    case False
    obtain y ys where y: "split_all c xs = y # ys"
      using split_all_nonempty by (cases "split_all c xs") auto
    with Cons False show ?thesis by (cases ys) auto
  qed
qed simp

lemma join_append:
  "xs \<noteq> [] \<Longrightarrow> ys \<noteq> [] \<Longrightarrow> join sep (xs @ ys) = join sep xs @ sep @ join sep ys"
proof (induction xs)
  case (Cons x xs)
  then show ?case by (cases "xs = []") (simp_all add: join_Cons)
qed simp

lemma join_snoc: "xs \<noteq> [] \<Longrightarrow> join sep (xs @ [x]) = join sep xs @ sep @ x"
  by (simp add: join_append)

lemma split_all_single: "c \<notin> set l \<Longrightarrow> split_all c l = [l]"
  by (induction l) auto

lemma split_all_snoc: "c \<notin> set l \<Longrightarrow> split_all c (b @ c # l) = split_all c b @ [l]"
proof (induction b)
  case (Cons x b)
  then show ?case using split_all_nonempty [of c b] by (auto split: list.split)
qed (simp add: split_all_single)

lemma split_n_length: "length (split_n n c s) \<le> n"
  by (induction n c s rule: split_n.induct) auto

lemma drop_sep:
  assumes "c \<in> set s"
  shows "takeWhile (\<lambda>x. x \<noteq> c) s @ [c] @ tl (dropWhile (\<lambda>x. x \<noteq> c) s) = s"
proof -
  have "dropWhile (\<lambda>x. x \<noteq> c) s \<noteq> []" using assms by (auto simp: dropWhile_eq_Nil_conv)
  then have "[c] @ tl (dropWhile (\<lambda>x. x \<noteq> c) s) = dropWhile (\<lambda>x. x \<noteq> c) s"
    using hd_dropWhile [of "\<lambda>x. x \<noteq> c" s] by (cases "dropWhile (\<lambda>x. x \<noteq> c) s") auto
  then show ?thesis by (metis takeWhile_dropWhile_id)
qed

lemma split_n_nonempty: "split_n (Suc n) c s \<noteq> []"
  by (cases n) auto

lemma join_split_n: "join [c] (split_n (Suc n) c s) = s"
proof (induction n arbitrary: s)
  case (Suc n)
  then show ?case
    using drop_sep [of c s] by (auto simp: join_Cons split_n_nonempty)
qed simp

section \<open>Case and white space\<close>

definition ascii_upper :: "rune \<Rightarrow> rune" where
  "ascii_upper r = (if 97 \<le> r \<and> r \<le> 122 then r - 32 else r)"

definition upper_rune :: "(rune \<Rightarrow> rune) \<Rightarrow> rune \<Rightarrow> rune" where
  "upper_rune uc r = (if r < 128 then ascii_upper r else uc r)"

lemma upper_rune_ascii [simp]: "upper_rune ascii_upper = ascii_upper"
  by (simp add: upper_rune_def fun_eq_iff)

definition to_upper :: "(rune \<Rightarrow> rune) \<Rightarrow> string \<Rightarrow> string" where
  "to_upper uc s = of_runes (map (upper_rune uc) (runes s))"

text \<open>\<open>unicode.IsSpace\<close>.\<close>

definition is_space :: "rune \<Rightarrow> bool" where
  "is_space r \<longleftrightarrow> (9 \<le> r \<and> r \<le> 13) \<or> r = 32 \<or> r = 133 \<or> r = 160 \<or> r = 5760
     \<or> (8192 \<le> r \<and> r \<le> 8202) \<or> r = 8232 \<or> r = 8233 \<or> r = 8239 \<or> r = 8287 \<or> r = 12288"

definition trim_space :: "string \<Rightarrow> string" where
  "trim_space s = concat (map snd (rev (dropWhile (is_space \<circ> fst)
      (rev (dropWhile (is_space \<circ> fst) (chunks s))))))"

section \<open>Hexadecimal\<close>

definition hex_digit :: "char \<Rightarrow> nat option" where
  "hex_digit c =
     (let b = byte c in
      if 48 \<le> b \<and> b \<le> 57 then Some (b - 48)
      else if 97 \<le> b \<and> b \<le> 102 then Some (b - 87)
      else if 65 \<le> b \<and> b \<le> 70 then Some (b - 55)
      else None)"

text \<open>\<open>hex.DecodeString\<close>: \<open>None\<close> for a bad digit or an odd length.\<close>

fun hex_decode :: "string \<Rightarrow> string option" where
  "hex_decode [] = Some []"
| "hex_decode [c] = None"
| "hex_decode (c # d # cs) =
     (case (hex_digit c, hex_digit d, hex_decode cs) of
        (Some x, Some y, Some bs) \<Rightarrow> Some (char_of (16 * x + y) # bs)
      | _ \<Rightarrow> None)"

lemma hex_decode_length: "hex_decode s = Some bs \<Longrightarrow> length s = 2 * length bs"
  by (induction s arbitrary: bs rule: hex_decode.induct) (auto split: option.splits)

lemma split_all_join:
  assumes "es \<noteq> []" "\<forall>e \<in> set es. c \<notin> set e"
  shows "split_all c (join [c] es) = es"
  using assms
proof (induction es rule: rev_induct)
  case (snoc e es)
  then show ?case
    by (cases "es = []") (auto simp: split_all_single join_snoc split_all_snoc)
qed simp

end
