(* ===== verification/Regex.thy ===== *)
theory Regex
  imports GoStrings
begin

text \<open>
  Compiled regular expressions of the package \<open>regexp\<close>: the syntax tree Go compiles a
  pattern to, and the leftmost-first search over the runes of a string.  A character class
  is its list of rune ranges (the Go parser complements a negated class and folds case in
  the same way), \<open>r?\<close> is an alternative with the empty expression, \<open>r+\<close> is
  \<open>r r*\<close>, and a counted repetition is expanded.  \<open>re_match\<close> lists the matches that
  start at an index in order of preference, each with its capture groups; the search takes
  the first match at the least index that has one, as the leftmost-first rule of the
  package says.  The string is kept as its sequence of chunks (a rune with its bytes), so a
  group is the exact byte substring the code receives.
\<close>

datatype regexp =
    REmpty
  | RClass "(rune \<times> rune) list"
  | RBeginText
  | REndText
  | RWordBoundary bool
  | RCat regexp regexp
  | RAlt regexp regexp
  | RStar bool regexp  \<comment> \<open>greedy or not\<close>
  | RCapture nat regexp

type_synonym captures = "(nat \<times> (nat \<times> nat)) list"
type_synonym chunked = "(rune \<times> string) list"

definition in_class :: "(rune \<times> rune) list \<Rightarrow> rune \<Rightarrow> bool" where
  "in_class rs r \<longleftrightarrow> list_ex (\<lambda>(lo, hi). lo \<le> r \<and> r \<le> hi) rs"

definition word_rune :: "rune \<Rightarrow> bool" where
  "word_rune r \<longleftrightarrow> (48 \<le> r \<and> r \<le> 57) \<or> (65 \<le> r \<and> r \<le> 90) \<or> r = 95 \<or> (97 \<le> r \<and> r \<le> 122)"

definition word_at :: "chunked \<Rightarrow> nat \<Rightarrow> bool" where
  "word_at cs i \<longleftrightarrow> i < length cs \<and> word_rune (fst (cs ! i))"

definition at_boundary :: "chunked \<Rightarrow> nat \<Rightarrow> bool" where
  "at_boundary cs i \<longleftrightarrow> (0 < i \<and> word_at cs (i - 1)) \<noteq> word_at cs i"

function re_match :: "chunked \<Rightarrow> regexp \<Rightarrow> nat \<Rightarrow> captures \<Rightarrow> (nat \<times> captures) list"
  and cat_from :: "chunked \<Rightarrow> regexp \<Rightarrow> (nat \<times> captures) list \<Rightarrow> (nat \<times> captures) list"
  and star_from :: "chunked \<Rightarrow> bool \<Rightarrow> regexp \<Rightarrow> nat \<Rightarrow> (nat \<times> captures) list \<Rightarrow> (nat \<times> captures) list"
where
  "re_match cs REmpty i cap = [(i, cap)]"
| "re_match cs (RClass rs) i cap =
     (if i < length cs \<and> in_class rs (fst (cs ! i)) then [(Suc i, cap)] else [])"
| "re_match cs RBeginText i cap = (if i = 0 then [(i, cap)] else [])"
| "re_match cs REndText i cap = (if length cs \<le> i then [(i, cap)] else [])"
| "re_match cs (RWordBoundary b) i cap = (if at_boundary cs i = b then [(i, cap)] else [])"
| "re_match cs (RCat a b) i cap = cat_from cs b (re_match cs a i cap)"
| "re_match cs (RAlt a b) i cap = re_match cs a i cap @ re_match cs b i cap"
| "re_match cs (RStar greedy a) i cap =
     (if greedy then star_from cs greedy a i (re_match cs a i cap) @ [(i, cap)]
      else (i, cap) # star_from cs greedy a i (re_match cs a i cap))"
| "re_match cs (RCapture n a) i cap =
     map (\<lambda>(j, c). (j, AList.update n (i, j) c)) (re_match cs a i cap)"
| "cat_from cs b [] = []"
| "cat_from cs b ((j, c) # ms) = re_match cs b j c @ cat_from cs b ms"
| "star_from cs greedy a i [] = []"
| "star_from cs greedy a i ((j, c) # ms) =
     (if i < j \<and> j \<le> length cs then re_match cs (RStar greedy a) j c else [])
       @ star_from cs greedy a i ms"
  by pat_completeness auto
termination
  by (relation "measures
      [case_sum (\<lambda>(cs, r, i, cap). 2 * size r + 1)
         (case_sum (\<lambda>(cs, b, ms). 2 * size b + 2) (\<lambda>(cs, g, a, i, ms). 2 * size (RStar g a) + 1)),
       case_sum (\<lambda>(cs, r, i, cap). length cs - i)
         (case_sum (\<lambda>_. 0) (\<lambda>(cs, g, a, i, ms). length cs - i)),
       case_sum (\<lambda>_. 1) (case_sum (\<lambda>_. 0) (\<lambda>_. 0)),
       case_sum (\<lambda>_. 0)
         (case_sum (\<lambda>(cs, b, ms). length ms) (\<lambda>(cs, g, a, i, ms). length ms))]") auto

lemma cat_from_concat: "cat_from cs b ms = concat (map (\<lambda>(j, c). re_match cs b j c) ms)"
  by (induction ms) auto

lemma cat_from_append: "cat_from cs b (xs @ ys) = cat_from cs b xs @ cat_from cs b ys"
  by (induction xs) auto

text \<open>The first start index, from \<open>i\<close> on, with a match; the preferred match there.\<close>

function re_search :: "chunked \<Rightarrow> regexp \<Rightarrow> nat \<Rightarrow> (nat \<times> nat \<times> captures) option" where
  "re_search cs r i =
     (case re_match cs r i [] of
        (j, cap) # _ \<Rightarrow> Some (i, j, cap)
      | [] \<Rightarrow> if i < length cs then re_search cs r (Suc i) else None)"
  by pat_completeness auto
termination
  by (relation "measure (\<lambda>(cs, r, i). length cs - i)") auto

declare re_search.simps [simp del]

definition text_between :: "chunked \<Rightarrow> nat \<Rightarrow> nat \<Rightarrow> string" where
  "text_between cs i j = concat (map snd (take (j - i) (drop i cs)))"

text \<open>\<open>(*Regexp).NumSubexp\<close>, \<open>(*Regexp).MatchString\<close> and
  \<open>(*Regexp).FindStringSubmatch\<close>; an unset group is the empty string.\<close>

fun num_subexp :: "regexp \<Rightarrow> nat" where
  "num_subexp (RCat a b) = num_subexp a + num_subexp b"
| "num_subexp (RAlt a b) = num_subexp a + num_subexp b"
| "num_subexp (RStar g a) = num_subexp a"
| "num_subexp (RCapture n a) = Suc (num_subexp a)"
| "num_subexp _ = 0"

definition match_string :: "regexp \<Rightarrow> string \<Rightarrow> bool" where
  "match_string r s = (re_search (chunks s) r 0 \<noteq> None)"

definition group_text :: "chunked \<Rightarrow> captures \<Rightarrow> nat \<Rightarrow> string" where
  "group_text cs cap n =
     (case map_of cap n of Some (i, j) \<Rightarrow> text_between cs i j | None \<Rightarrow> [])"

definition find_string_submatch :: "regexp \<Rightarrow> string \<Rightarrow> string list option" where
  "find_string_submatch r s =
     (let cs = chunks s in
      case re_search cs r 0 of
        None \<Rightarrow> None
      | Some (i, j, cap) \<Rightarrow>
          Some (text_between cs i j # map (group_text cs cap) [1..<Suc (num_subexp r)]))"

lemma find_string_submatch_length:
  "find_string_submatch r s = Some ms \<Longrightarrow> length ms = Suc (num_subexp r)"
  by (auto simp: find_string_submatch_def Let_def split: option.splits)

text \<open>The expression for a case-insensitive literal, and what it matches.\<close>

definition fold_char :: "char \<Rightarrow> regexp" where
  "fold_char c = (let r = ascii_upper (byte c); l = (if 65 \<le> r \<and> r \<le> 90 then r + 32 else r)
     in RClass [(r, r), (l, l)])"

fun fold_lit :: "string \<Rightarrow> regexp" where
  "fold_lit [] = REmpty"
| "fold_lit (c # cs) = RCat (fold_char c) (fold_lit cs)"

fun alternatives :: "regexp list \<Rightarrow> regexp" where
  "alternatives [] = RClass []"
| "alternatives [r] = r"
| "alternatives (r # s # rs) = RAlt r (alternatives (s # rs))"

end
