(* ===== verification/Config.thy ===== *)
theory Config
  imports Regex
begin

text \<open>
  The configuration of \<open>internal/config/config.go\<close>: the records, the defaults and
  \<open>Validate\<close>.  Field names carry a prefix for their record.  \<open>regexp.Compile\<close> is the
  argument \<open>compile\<close> (\<open>None\<close> when the pattern is rejected) and \<open>uc\<close> is the upper-case
  table of the package \<open>unicode\<close>.  An error keeps the parts its message is formatted from.
\<close>

section \<open>Floating point\<close>

text \<open>A \<open>float64\<close>: a finite value is \<open>m * 2 ^ e\<close>.\<close>

datatype float64 = Finite int int | PosInf | NegInf | NaN

fun float_le_zero :: "float64 \<Rightarrow> bool" where
  "float_le_zero (Finite m e) = (m \<le> 0)"
| "float_le_zero PosInf = False"
| "float_le_zero NegInf = True"
| "float_le_zero NaN = False"

section \<open>The configuration\<close>

record flow_control_config =
  fc_Enabled :: bool
  fc_RatePerSecond :: float64
  fc_Burst :: int
  fc_Mode :: string
  fc_ReportInterval :: duration

record log_config =
  lg_Level :: string
  lg_Format :: string
  lg_File :: string
  lg_AlsoStdout :: bool
  lg_MaxSizeMB :: int
  lg_MaxBackups :: int
  lg_MaxAgeDays :: int
  lg_Compress :: bool

record state_config =
  st_Path :: string

record performance_config =
  pf_DiscoveryInterval :: duration
  pf_ReadInterval :: duration
  pf_PositionFlushInterval :: duration
  pf_WorkerCount :: int
  pf_MaxReadBytesPerFile :: int
  pf_MaxLogSize :: int
  pf_MaxMultilineSize :: int
  pf_MaxMultilineLines :: int
  pf_CacheTTL :: duration

record multiline_config =
  ml_StartPattern :: string
  ml_FlushAfter :: duration

record attribute_extractor_config =
  ax_Key :: string
  ax_Pattern :: string

record trace_id_config =
  ti_Pattern :: string
  ti_Completion :: bool

record process_rule =
  pr_Name :: string
  pr_CommRegex :: string
  pr_CmdlineRegex :: string
  pr_IncludeRegex :: string
  pr_ExcludeRegex :: string
  pr_MaxFiles :: int
  pr_StartAt :: string
  pr_Multiline :: multiline_config
  pr_Attributes :: "smap option"
  pr_Extractors :: "attribute_extractor_config list"
  pr_TraceID :: trace_id_config
  pr_DropLevels :: "string list"

record file_rule =
  fr_Name :: string
  fr_Include :: "string list"
  fr_Exclude :: "string list"
  fr_StartAt :: string
  fr_Format :: string
  fr_Multiline :: multiline_config
  fr_Attributes :: "smap option"
  fr_Extractors :: "attribute_extractor_config list"
  fr_TraceID :: trace_id_config
  fr_DropLevels :: "string list"

record sources_config =
  sr_Processes :: "process_rule list"
  sr_Files :: "file_rule list"
  sr_Containers :: "file_rule list"

record retry_config =
  rt_Enabled :: bool
  rt_Initial :: duration
  rt_MaxInterval :: duration
  rt_MaxElapsed :: duration

record export_config =
  ex_Enabled :: bool
  ex_Endpoint :: string
  ex_Headers :: "smap option"
  ex_Compression :: string
  ex_Timeout :: duration
  ex_BatchSize :: int
  ex_MaxBatchBytes :: int
  ex_FlushInterval :: duration
  ex_QueueSize :: int
  ex_MaxQueueBytes :: int
  ex_Retry :: retry_config

record webhook_config =
  wh_Enabled :: bool
  wh_URL :: string
  wh_Title :: string
  wh_Environment :: string
  wh_SeverityLevels :: "string list"
  wh_IgnoreKeywords :: "string list"
  wh_ErrorTypeKeywords :: "string list"
  wh_Timeout :: duration
  wh_MaxContentLength :: int

record config =
  cf_Log :: log_config
  cf_State :: state_config
  cf_Sources :: sources_config
  cf_Export :: export_config
  cf_Webhook :: webhook_config
  cf_Performance :: performance_config
  cf_FlowControl :: flow_control_config

section \<open>Defaults\<close>

definition minute :: duration where "minute = 60 * second"
definition hour :: duration where "hour = 60 * minute"

text \<open>The default title is the UTF-8 text of the source, six Chinese characters.\<close>

definition default_title :: string where
  "default_title = map char_of [230, 151, 165, 229, 191, 151, 229, 188, 130, 229, 184, 184,
     229, 145, 138, 232, 173, 166 :: nat]"

definition defaults :: config where
  "defaults = \<lparr>
     cf_Log = \<lparr>lg_Level = ''info'', lg_Format = ''json'', lg_File = ''./logs/log-collector.log'',
       lg_AlsoStdout = True, lg_MaxSizeMB = 100, lg_MaxBackups = 10, lg_MaxAgeDays = 7,
       lg_Compress = True\<rparr>,
     cf_State = \<lparr>st_Path = ''./data/positions.json''\<rparr>,
     cf_Sources = \<lparr>sr_Processes = [], sr_Files = [], sr_Containers = []\<rparr>,
     cf_Export = \<lparr>ex_Enabled = True, ex_Endpoint = [], ex_Headers = None, ex_Compression = [],
       ex_Timeout = 10 * second, ex_BatchSize = 500, ex_MaxBatchBytes = 4 * 1024 * 1024,
       ex_FlushInterval = second, ex_QueueSize = 10000, ex_MaxQueueBytes = 64 * 1024 * 1024,
       ex_Retry = \<lparr>rt_Enabled = True, rt_Initial = second, rt_MaxInterval = 30 * second,
         rt_MaxElapsed = 5 * minute\<rparr>\<rparr>,
     cf_Webhook = \<lparr>wh_Enabled = False, wh_URL = [], wh_Title = default_title, wh_Environment = [],
       wh_SeverityLevels = [''ERROR'', ''FATAL''], wh_IgnoreKeywords = [], wh_ErrorTypeKeywords = [],
       wh_Timeout = 5 * second, wh_MaxContentLength = 4000\<rparr>,
     cf_Performance = \<lparr>pf_DiscoveryInterval = 5 * second, pf_ReadInterval = second,
       pf_PositionFlushInterval = 15 * second, pf_WorkerCount = 4,
       pf_MaxReadBytesPerFile = 4 * 1024 * 1024, pf_MaxLogSize = 1024 * 1024,
       pf_MaxMultilineSize = 4 * 1024 * 1024, pf_MaxMultilineLines = 1000, pf_CacheTTL = 24 * hour\<rparr>,
     cf_FlowControl = \<lparr>fc_Enabled = False, fc_RatePerSecond = Finite 1000 0, fc_Burst = 2000,
       fc_Mode = ''block'', fc_ReportInterval = 10 * second\<rparr>\<rparr>"

section \<open>Validation\<close>

datatype config_error =
    Message string
  | InvalidProcessRule string
  | ProcessRuleError string config_error
  | FileRuleError string config_error
  | InvalidPattern string
  | EmptyKeyword string
  | DuplicateValue string string
  | InvalidLevel string string
  | InvalidExtractorPattern string
  | NoCaptureGroup string

text \<open>The first error of a sequence of checks, which is how the early returns compose.\<close>

fun first_error :: "('e option) list \<Rightarrow> 'e option" where
  "first_error [] = None"
| "first_error (x # xs) = (case x of None \<Rightarrow> first_error xs | Some err \<Rightarrow> Some err)"

definition check :: "bool \<Rightarrow> 'e \<Rightarrow> 'e option" where
  "check bad err = (if bad then Some err else None)"

fun keyword_list :: "string \<Rightarrow> string list \<Rightarrow> string list \<Rightarrow> config_error option" where
  "keyword_list field seen [] = None"
| "keyword_list field seen (k # ks) =
     (if trim_space k = [] then Some (EmptyKeyword field)
      else if k \<in> set seen then Some (DuplicateValue field k)
      else keyword_list field (k # seen) ks)"

definition validateKeywordList :: "string \<Rightarrow> string list \<Rightarrow> config_error option" where
  "validateKeywordList field keywords = keyword_list field [] keywords"

definition severity_levels :: "string list" where
  "severity_levels = [''TRACE'', ''DEBUG'', ''INFO'', ''WARN'', ''ERROR'', ''FATAL'']"

fun level_list :: "(rune \<Rightarrow> rune) \<Rightarrow> string \<Rightarrow> string list \<Rightarrow> string list \<Rightarrow> config_error option" where
  "level_list uc field seen [] = None"
| "level_list uc field seen (l # ls) =
     (let normalized = to_upper uc l in
      if normalized \<notin> set severity_levels then Some (InvalidLevel field l)
      else if normalized \<in> set seen then Some (DuplicateValue field l)
      else level_list uc field (normalized # seen) ls)"

definition validateSeverityLevels :: "(rune \<Rightarrow> rune) \<Rightarrow> string \<Rightarrow> string list \<Rightarrow> config_error option" where
  "validateSeverityLevels uc field levels = level_list uc field [] levels"

definition validateDropLevels :: "(rune \<Rightarrow> rune) \<Rightarrow> string list \<Rightarrow> config_error option" where
  "validateDropLevels uc levels = validateSeverityLevels uc ''drop_levels'' levels"

fun extractor_list :: "(string \<Rightarrow> regexp option) \<Rightarrow> string list \<Rightarrow> attribute_extractor_config list \<Rightarrow>
    config_error option" where
  "extractor_list compile keys [] = None"
| "extractor_list compile keys (x # xs) =
     (if ax_Key x = [] \<or> ax_Pattern x = []
      then Some (Message ''attribute extractor key and pattern are required'')
      else if ax_Key x \<in> set keys then Some (DuplicateValue ''attribute extractor key'' (ax_Key x))
      else (case compile (ax_Pattern x) of
              None \<Rightarrow> Some (InvalidExtractorPattern (ax_Key x))
            | Some re \<Rightarrow> if num_subexp re < 1 then Some (NoCaptureGroup (ax_Key x))
                         else extractor_list compile (ax_Key x # keys) xs))"

definition validateAttributeExtractors ::
    "(string \<Rightarrow> regexp option) \<Rightarrow> attribute_extractor_config list \<Rightarrow> config_error option" where
  "validateAttributeExtractors compile extractors = extractor_list compile [] extractors"

definition validateTraceIDExtractor ::
    "(string \<Rightarrow> regexp option) \<Rightarrow> trace_id_config \<Rightarrow> config_error option" where
  "validateTraceIDExtractor compile x =
     (if ti_Pattern x = [] then None
      else (case compile (ti_Pattern x) of
              None \<Rightarrow> Some (InvalidPattern ''trace_id_extractor'')
            | Some re \<Rightarrow> if num_subexp re < 1 then Some (NoCaptureGroup ''trace_id_extractor'') else None))"

definition validateStartAt :: "string \<Rightarrow> config_error option" where
  "validateStartAt v = check (v \<noteq> [] \<and> v \<noteq> ''beginning'' \<and> v \<noteq> ''end'')
     (Message ''start_at must be beginning or end'')"

text \<open>The patterns of a rule, a map literal in the code: the error is that of some invalid one.\<close>

definition check_pattern :: "(string \<Rightarrow> regexp option) \<Rightarrow> string \<times> string \<Rightarrow> config_error option" where
  "check_pattern compile fe =
     check (snd fe \<noteq> [] \<and> compile (snd fe) = None) (InvalidPattern (fst fe))"

definition validate_process_rule ::
    "(string \<Rightarrow> regexp option) \<Rightarrow> (rune \<Rightarrow> rune) \<Rightarrow> process_rule \<Rightarrow> config_error option" where
  "validate_process_rule compile uc r =
     (if pr_Name r = [] \<or> (pr_CommRegex r = [] \<and> pr_CmdlineRegex r = []) \<or> pr_IncludeRegex r = []
      then Some (InvalidProcessRule (pr_Name r))
      else map_option (ProcessRuleError (pr_Name r)) (first_error
        (validateStartAt (pr_StartAt r)
         # map (check_pattern compile)
             [(''comm_regex'', pr_CommRegex r), (''cmdline_regex'', pr_CmdlineRegex r),
              (''include_regex'', pr_IncludeRegex r), (''exclude_regex'', pr_ExcludeRegex r),
              (''start_pattern'', ml_StartPattern (pr_Multiline r))]
         @ [validateAttributeExtractors compile (pr_Extractors r),
            validateTraceIDExtractor compile (pr_TraceID r),
            validateDropLevels uc (pr_DropLevels r)])))"

definition validate_file_rule ::
    "(string \<Rightarrow> regexp option) \<Rightarrow> (rune \<Rightarrow> rune) \<Rightarrow> file_rule \<Rightarrow> config_error option" where
  "validate_file_rule compile uc r =
     (if fr_Name r = [] \<or> fr_Include r = []
      then Some (Message ''file rule name and include are required'')
      else map_option (FileRuleError (fr_Name r)) (first_error
        [validateStartAt (fr_StartAt r),
         check (fr_Format r \<noteq> [] \<and> fr_Format r \<noteq> ''cri'') (Message ''format must be empty or cri''),
         check_pattern compile (''start_pattern'', ml_StartPattern (fr_Multiline r)),
         validateAttributeExtractors compile (fr_Extractors r),
         validateTraceIDExtractor compile (fr_TraceID r),
         validateDropLevels uc (fr_DropLevels r)]))"

definition validate_log :: "log_config \<Rightarrow> config_error option" where
  "validate_log l = first_error
     [check (lg_Level l \<noteq> ''debug'' \<and> lg_Level l \<noteq> ''info'' \<and> lg_Level l \<noteq> ''warn'' \<and> lg_Level l \<noteq> ''error'')
        (Message ''log.level must be debug, info, warn or error''),
      check (lg_Format l \<noteq> ''json'' \<and> lg_Format l \<noteq> ''console'')
        (Message ''log.format must be json or console''),
      check (lg_File l = [] \<and> \<not> lg_AlsoStdout l)
        (Message ''log.file and log.also_stdout cannot both be disabled''),
      check (lg_MaxSizeMB l \<le> 0 \<or> lg_MaxBackups l < 0 \<or> lg_MaxAgeDays l < 0)
        (Message ''log rotation values are invalid'')]"

definition validate_export :: "export_config \<Rightarrow> config_error option" where
  "validate_export x =
     (if ex_Enabled x then first_error
        [check (ex_Endpoint x = []) (Message ''export.endpoint is required when export is enabled''),
         check (ex_Compression x \<noteq> [] \<and> ex_Compression x \<noteq> ''gzip'')
           (Message ''export.compression must be empty or gzip''),
         check (ex_BatchSize x \<le> 0 \<or> ex_QueueSize x \<le> 0 \<or> ex_MaxBatchBytes x \<le> 0 \<or> ex_MaxQueueBytes x \<le> 0)
           (Message ''export batch_size, max_batch_bytes, queue_size and max_queue_bytes must be positive''),
         check (ex_MaxQueueBytes x < ex_MaxBatchBytes x)
           (Message ''export.max_queue_bytes must be greater than or equal to max_batch_bytes''),
         check (ex_FlushInterval x \<le> 0 \<or> ex_Timeout x \<le> 0)
           (Message ''export flush_interval and timeout must be positive'')]
      else None)"

definition validate_webhook :: "(rune \<Rightarrow> rune) \<Rightarrow> webhook_config \<Rightarrow> config_error option" where
  "validate_webhook uc w =
     (if wh_Enabled w then first_error
        [check (wh_URL w = []) (Message ''wechat_webhook.url is required when webhook is enabled''),
         check (wh_Timeout w \<le> 0 \<or> wh_MaxContentLength w \<le> 0)
           (Message ''wechat_webhook timeout and max_content_length must be positive''),
         check (wh_SeverityLevels w = []) (Message ''wechat_webhook.severity_levels must not be empty''),
         validateSeverityLevels uc ''wechat_webhook.severity_levels'' (wh_SeverityLevels w),
         validateKeywordList ''wechat_webhook.ignore_keywords'' (wh_IgnoreKeywords w),
         validateKeywordList ''wechat_webhook.error_type_keywords'' (wh_ErrorTypeKeywords w)]
      else None)"

definition validate_performance :: "performance_config \<Rightarrow> config_error option" where
  "validate_performance p = first_error
     [check (pf_DiscoveryInterval p \<le> 0 \<or> pf_ReadInterval p \<le> 0 \<or> pf_PositionFlushInterval p \<le> 0)
        (Message ''performance intervals must be positive''),
      check (pf_WorkerCount p \<le> 0 \<or> pf_MaxReadBytesPerFile p \<le> 0 \<or> pf_MaxLogSize p \<le> 0
          \<or> pf_MaxMultilineSize p \<le> 0 \<or> pf_MaxMultilineLines p \<le> 0 \<or> pf_CacheTTL p \<le> 0)
        (Message ''performance limits must be positive''),
      check (1024 < pf_WorkerCount p) (Message ''performance.worker_count must not exceed 1024'')]"

definition validate_flow_control :: "flow_control_config \<Rightarrow> config_error option" where
  "validate_flow_control f =
     (if fc_Enabled f then first_error
        [check (float_le_zero (fc_RatePerSecond f) \<or> fc_Burst f \<le> 0 \<or> fc_ReportInterval f \<le> 0)
           (Message ''flow_control rate, burst and report_interval must be positive''),
         check (fc_Mode f \<noteq> ''block'' \<and> fc_Mode f \<noteq> ''drop'')
           (Message ''flow_control.mode must be block or drop'')]
      else None)"

definition Validate :: "(string \<Rightarrow> regexp option) \<Rightarrow> (rune \<Rightarrow> rune) \<Rightarrow> config \<Rightarrow> config_error option" where
  "Validate compile uc c = first_error
     ([validate_log (cf_Log c),
       check (\<not> ex_Enabled (cf_Export c) \<and> \<not> wh_Enabled (cf_Webhook c))
         (Message ''export and wechat_webhook cannot both be disabled''),
       check (st_Path (cf_State c) = []) (Message ''state.path is required''),
       validate_export (cf_Export c),
       validate_webhook uc (cf_Webhook c),
       validate_performance (cf_Performance c),
       validate_flow_control (cf_FlowControl c)]
      @ map (validate_process_rule compile uc) (sr_Processes (cf_Sources c))
      @ map (validate_file_rule compile uc) (sr_Files (cf_Sources c))
      @ map (validate_file_rule compile uc) (sr_Containers (cf_Sources c)))"

text \<open>\<open>Load\<close>: \<open>decode\<close> overlays the YAML document on the defaults.\<close>

definition Load_config :: "(string \<Rightarrow> config \<Rightarrow> gerr + config) \<Rightarrow> (string \<Rightarrow> regexp option) \<Rightarrow>
    (rune \<Rightarrow> rune) \<Rightarrow> gerr + string \<Rightarrow> (gerr + config_error) + config" where
  "Load_config decode compile uc contents =
     (case contents of
        Inl err \<Rightarrow> Inl (Inl err)
      | Inr b \<Rightarrow>
          (case decode b defaults of
             Inl err \<Rightarrow> Inl (Inl err)
           | Inr cfg \<Rightarrow>
               (case Validate compile uc cfg of
                  Some err \<Rightarrow> Inl (Inr err) | None \<Rightarrow> Inr cfg)))"

section \<open>What validation accepts\<close>

lemma first_error_None [simp]: "first_error xs = None \<longleftrightarrow> (\<forall>x \<in> set xs. x = None)"
  by (induction xs) (auto split: option.split)

declare first_error.simps [simp del]

lemma check_None [simp]: "check bad err = None \<longleftrightarrow> \<not> bad"
  by (simp add: check_def)

lemma keyword_list_None:
  "keyword_list field seen ks = None \<longleftrightarrow>
     (\<forall>k \<in> set ks. trim_space k \<noteq> []) \<and> distinct ks \<and> set ks \<inter> set seen = {}"
  by (induction field seen ks rule: keyword_list.induct) auto

lemma validateKeywordList_None:
  "validateKeywordList field ks = None \<longleftrightarrow> (\<forall>k \<in> set ks. trim_space k \<noteq> []) \<and> distinct ks"
  by (simp add: validateKeywordList_def keyword_list_None)

lemma level_list_None:
  "level_list uc field seen ls = None \<longleftrightarrow>
     to_upper uc ` set ls \<subseteq> set severity_levels \<and> distinct (map (to_upper uc) ls)
     \<and> to_upper uc ` set ls \<inter> set seen = {}"
  by (induction uc field seen ls rule: level_list.induct) (auto simp: Let_def)

lemma validateSeverityLevels_None:
  "validateSeverityLevels uc field ls = None \<longleftrightarrow>
     to_upper uc ` set ls \<subseteq> set severity_levels \<and> distinct (map (to_upper uc) ls)"
  by (simp add: validateSeverityLevels_def level_list_None)

definition has_group :: "(string \<Rightarrow> regexp option) \<Rightarrow> string \<Rightarrow> bool" where
  "has_group compile pattern = (case compile pattern of None \<Rightarrow> False | Some re \<Rightarrow> 0 < num_subexp re)"

definition compiles :: "(string \<Rightarrow> regexp option) \<Rightarrow> string \<Rightarrow> bool" where
  "compiles compile pattern \<longleftrightarrow> pattern = [] \<or> compile pattern \<noteq> None"

definition good_extractors :: "(string \<Rightarrow> regexp option) \<Rightarrow> attribute_extractor_config list \<Rightarrow> bool" where
  "good_extractors compile xs \<longleftrightarrow> distinct (map ax_Key xs)
     \<and> (\<forall>x \<in> set xs. ax_Key x \<noteq> [] \<and> ax_Pattern x \<noteq> [] \<and> has_group compile (ax_Pattern x))"

lemma extractor_list_None:
  "extractor_list compile keys xs = None \<longleftrightarrow>
     good_extractors compile xs \<and> ax_Key ` set xs \<inter> set keys = {}"
proof (induction compile keys xs rule: extractor_list.induct)
  case (2 compile keys x xs)
  then show ?case
    by (cases "compile (ax_Pattern x)") (auto simp: good_extractors_def has_group_def)
qed (simp add: good_extractors_def)

lemma validateAttributeExtractors_None:
  "validateAttributeExtractors compile xs = None \<longleftrightarrow> good_extractors compile xs"
  by (simp add: validateAttributeExtractors_def extractor_list_None)

lemma validateTraceIDExtractor_None:
  "validateTraceIDExtractor compile x = None \<longleftrightarrow> ti_Pattern x = [] \<or> has_group compile (ti_Pattern x)"
  by (auto simp: validateTraceIDExtractor_def has_group_def split: option.split)

lemma validateStartAt_None:
  "validateStartAt v = None \<longleftrightarrow> v \<in> {[], ''beginning'', ''end''}"
  by (auto simp: validateStartAt_def)

lemma check_pattern_None: "check_pattern compile fe = None \<longleftrightarrow> compiles compile (snd fe)"
  by (auto simp: check_pattern_def compiles_def)

text \<open>The rules of a valid configuration, as the code that runs on it needs them.\<close>

definition good_levels :: "(rune \<Rightarrow> rune) \<Rightarrow> string list \<Rightarrow> bool" where
  "good_levels uc ls \<longleftrightarrow>
     to_upper uc ` set ls \<subseteq> set severity_levels \<and> distinct (map (to_upper uc) ls)"

definition good_process_rule :: "(string \<Rightarrow> regexp option) \<Rightarrow> (rune \<Rightarrow> rune) \<Rightarrow> process_rule \<Rightarrow> bool" where
  "good_process_rule compile uc r \<longleftrightarrow>
     pr_Name r \<noteq> [] \<and> (pr_CommRegex r \<noteq> [] \<or> pr_CmdlineRegex r \<noteq> []) \<and> pr_IncludeRegex r \<noteq> []
     \<and> pr_StartAt r \<in> {[], ''beginning'', ''end''}
     \<and> list_all (compiles compile) [pr_CommRegex r, pr_CmdlineRegex r, pr_IncludeRegex r,
          pr_ExcludeRegex r, ml_StartPattern (pr_Multiline r)]
     \<and> good_extractors compile (pr_Extractors r)
     \<and> (ti_Pattern (pr_TraceID r) = [] \<or> has_group compile (ti_Pattern (pr_TraceID r)))
     \<and> good_levels uc (pr_DropLevels r)"

definition good_file_rule :: "(string \<Rightarrow> regexp option) \<Rightarrow> (rune \<Rightarrow> rune) \<Rightarrow> file_rule \<Rightarrow> bool" where
  "good_file_rule compile uc r \<longleftrightarrow>
     fr_Name r \<noteq> [] \<and> fr_Include r \<noteq> []
     \<and> fr_StartAt r \<in> {[], ''beginning'', ''end''} \<and> fr_Format r \<in> {[], ''cri''}
     \<and> compiles compile (ml_StartPattern (fr_Multiline r))
     \<and> good_extractors compile (fr_Extractors r)
     \<and> (ti_Pattern (fr_TraceID r) = [] \<or> has_group compile (ti_Pattern (fr_TraceID r)))
     \<and> good_levels uc (fr_DropLevels r)"

lemma validate_process_rule_None:
  "validate_process_rule compile uc r = None \<longleftrightarrow> good_process_rule compile uc r"
  by (auto simp: validate_process_rule_def good_process_rule_def validateStartAt_None
      check_pattern_None validateAttributeExtractors_None validateTraceIDExtractor_None
      validateDropLevels_def validateSeverityLevels_None good_levels_def)

lemma validate_file_rule_None:
  "validate_file_rule compile uc r = None \<longleftrightarrow> good_file_rule compile uc r"
  by (auto simp: validate_file_rule_def good_file_rule_def validateStartAt_None
      check_pattern_None validateAttributeExtractors_None validateTraceIDExtractor_None
      validateDropLevels_def validateSeverityLevels_None good_levels_def)

definition good_export :: "export_config \<Rightarrow> bool" where
  "good_export x \<longleftrightarrow> ex_Endpoint x \<noteq> [] \<and> ex_Compression x \<in> {[], ''gzip''}
     \<and> 0 < ex_BatchSize x \<and> 0 < ex_QueueSize x \<and> 0 < ex_MaxBatchBytes x
     \<and> ex_MaxBatchBytes x \<le> ex_MaxQueueBytes x \<and> 0 < ex_FlushInterval x \<and> 0 < ex_Timeout x"

lemma validate_export_None: "validate_export x = None \<longleftrightarrow> (ex_Enabled x \<longrightarrow> good_export x)"
  by (auto simp: validate_export_def good_export_def)

definition good_webhook :: "(rune \<Rightarrow> rune) \<Rightarrow> webhook_config \<Rightarrow> bool" where
  "good_webhook uc w \<longleftrightarrow> wh_URL w \<noteq> [] \<and> 0 < wh_Timeout w \<and> 0 < wh_MaxContentLength w
     \<and> wh_SeverityLevels w \<noteq> [] \<and> good_levels uc (wh_SeverityLevels w)
     \<and> (\<forall>k \<in> set (wh_IgnoreKeywords w @ wh_ErrorTypeKeywords w). trim_space k \<noteq> [])
     \<and> distinct (wh_IgnoreKeywords w) \<and> distinct (wh_ErrorTypeKeywords w)"

lemma validate_webhook_None: "validate_webhook uc w = None \<longleftrightarrow> (wh_Enabled w \<longrightarrow> good_webhook uc w)"
  by (auto simp: validate_webhook_def good_webhook_def validateSeverityLevels_None
      validateKeywordList_None good_levels_def)

definition good_performance :: "performance_config \<Rightarrow> bool" where
  "good_performance p \<longleftrightarrow> 0 < pf_DiscoveryInterval p \<and> 0 < pf_ReadInterval p
     \<and> 0 < pf_PositionFlushInterval p \<and> 0 < pf_WorkerCount p \<and> pf_WorkerCount p \<le> 1024
     \<and> 0 < pf_MaxReadBytesPerFile p \<and> 0 < pf_MaxLogSize p \<and> 0 < pf_MaxMultilineSize p
     \<and> 0 < pf_MaxMultilineLines p \<and> 0 < pf_CacheTTL p"

lemma validate_performance_None: "validate_performance p = None \<longleftrightarrow> good_performance p"
  by (auto simp: validate_performance_def good_performance_def)

definition good_flow_control :: "flow_control_config \<Rightarrow> bool" where
  "good_flow_control f \<longleftrightarrow> \<not> float_le_zero (fc_RatePerSecond f) \<and> 0 < fc_Burst f
     \<and> 0 < fc_ReportInterval f \<and> fc_Mode f \<in> {''block'', ''drop''}"

lemma validate_flow_control_None:
  "validate_flow_control f = None \<longleftrightarrow> (fc_Enabled f \<longrightarrow> good_flow_control f)"
  by (auto simp: validate_flow_control_def good_flow_control_def)

definition good_log :: "log_config \<Rightarrow> bool" where
  "good_log l \<longleftrightarrow> lg_Level l \<in> {''debug'', ''info'', ''warn'', ''error''}
     \<and> lg_Format l \<in> {''json'', ''console''} \<and> (lg_File l \<noteq> [] \<or> lg_AlsoStdout l)
     \<and> 0 < lg_MaxSizeMB l \<and> 0 \<le> lg_MaxBackups l \<and> 0 \<le> lg_MaxAgeDays l"

lemma validate_log_None: "validate_log l = None \<longleftrightarrow> good_log l"
  by (auto simp: validate_log_def good_log_def)

definition good_config :: "(string \<Rightarrow> regexp option) \<Rightarrow> (rune \<Rightarrow> rune) \<Rightarrow> config \<Rightarrow> bool" where
  "good_config compile uc c \<longleftrightarrow>
     good_log (cf_Log c) \<and> st_Path (cf_State c) \<noteq> []
     \<and> (ex_Enabled (cf_Export c) \<or> wh_Enabled (cf_Webhook c))
     \<and> (ex_Enabled (cf_Export c) \<longrightarrow> good_export (cf_Export c))
     \<and> (wh_Enabled (cf_Webhook c) \<longrightarrow> good_webhook uc (cf_Webhook c))
     \<and> good_performance (cf_Performance c)
     \<and> (fc_Enabled (cf_FlowControl c) \<longrightarrow> good_flow_control (cf_FlowControl c))
     \<and> list_all (good_process_rule compile uc) (sr_Processes (cf_Sources c))
     \<and> list_all (good_file_rule compile uc) (sr_Files (cf_Sources c) @ sr_Containers (cf_Sources c))"

lemma Validate_None: "Validate compile uc c = None \<longleftrightarrow> good_config compile uc c"
  by (simp add: Validate_def good_config_def validate_log_None validate_export_None
      validate_webhook_None validate_performance_None validate_flow_control_None
      validate_process_rule_None validate_file_rule_None list_all_iff ball_Un) blast

lemma Load_config_Inr:
  "Load_config decode compile uc contents = Inr c \<Longrightarrow> good_config compile uc c"
  by (auto simp: Load_config_def Validate_None split: sum.splits option.splits)

section \<open>Properties\<close>

text \<open>C10. \<open>Validate\<close> accepts exactly the configurations the rest of the program can run on:
  every enabled output has its address and positive limits with the queue at least as large
  as a batch, all intervals and limits are positive, levels are distinct severities, every
  pattern compiles and every extractor has a capture group.\<close>

theorem Validate_iff_good:
  "Validate compile uc c = None \<longleftrightarrow> good_config compile uc c"
  by (rule Validate_None)

text \<open>A configuration that \<open>Load\<close> returns has passed \<open>Validate\<close>, and it is what the
  decoder made of the defaults.\<close>

theorem Load_config_valid:
  assumes "Load_config decode compile uc contents = Inr c"
  shows "good_config compile uc c \<and> (\<exists>b. contents = Inr b \<and> decode b defaults = Inr c)"
  using assms Load_config_Inr [OF assms] by (auto simp: Load_config_def split: sum.splits option.splits)

text \<open>The defaults lack nothing but the endpoint: they are rejected for that reason, and
  with an endpoint they are a valid configuration.\<close>

theorem defaults_need_endpoint:
  "Validate compile uc defaults = Some (Message ''export.endpoint is required when export is enabled'')
   \<and> (e \<noteq> [] \<longrightarrow> Validate compile uc (defaults\<lparr>cf_Export := (cf_Export defaults)\<lparr>ex_Endpoint := e\<rparr>\<rparr>) = None)"
proof
  show "Validate compile uc defaults = Some (Message ''export.endpoint is required when export is enabled'')"
    by (simp add: Validate_def defaults_def validate_log_def validate_export_def check_def first_error.simps)
  show "e \<noteq> [] \<longrightarrow> Validate compile uc (defaults\<lparr>cf_Export := (cf_Export defaults)\<lparr>ex_Endpoint := e\<rparr>\<rparr>) = None"
    by (simp add: Validate_None good_config_def defaults_def good_log_def good_export_def
        good_performance_def second_def minute_def hour_def)
qed

theorem defaults_need_endpoint_witness:
  "Validate (\<lambda>p. None) (\<lambda>r. r) (defaults\<lparr>cf_Export := (cf_Export defaults)\<lparr>ex_Endpoint := ''http://c''\<rparr>\<rparr>) = None"
  using defaults_need_endpoint [of "\<lambda>p. None" "\<lambda>r. r" "''http://c''"] by simp

theorem Load_config_valid_witness:
  "good_config (\<lambda>p. None) (\<lambda>r. r) (defaults\<lparr>cf_Export := (cf_Export defaults)\<lparr>ex_Endpoint := ''e''\<rparr>\<rparr>)"
proof -
  let ?c = "defaults\<lparr>cf_Export := (cf_Export defaults)\<lparr>ex_Endpoint := ''e''\<rparr>\<rparr>"
  let ?decode = "\<lambda>b c. Inr (c\<lparr>cf_Export := (cf_Export c)\<lparr>ex_Endpoint := b\<rparr>\<rparr>)"
  have "good_config (\<lambda>p. None) (\<lambda>r. r) ?c"
    by (simp add: good_config_def defaults_def good_log_def good_export_def
        good_performance_def second_def minute_def hour_def)
  then have "Validate (\<lambda>p. None) (\<lambda>r. r) ?c = None" by (simp only: Validate_None)
  then have "Load_config ?decode (\<lambda>p. None) (\<lambda>r. r) (Inr ''e'') = Inr ?c"
    by (simp add: Load_config_def)
  then show ?thesis using Load_config_valid [of ?decode "\<lambda>p. None" "\<lambda>r. r" "Inr ''e''" ?c] by blast
qed

text \<open>A rate that is not a number passes the check for a positive rate, because it
  compares false with 0.\<close>

theorem nan_rate_is_accepted:
  assumes "good_config compile uc c" "fc_Enabled (cf_FlowControl c)"
  shows "Validate compile uc
    (c\<lparr>cf_FlowControl := (cf_FlowControl c)\<lparr>fc_RatePerSecond := NaN\<rparr>\<rparr>) = None"
  using assms by (simp add: Validate_None good_config_def good_flow_control_def)

theorem nan_rate_is_accepted_witness:
  "Validate (\<lambda>p. None) (\<lambda>r. r) (defaults\<lparr>cf_Export := (cf_Export defaults)\<lparr>ex_Endpoint := ''e''\<rparr>,
     cf_FlowControl := (cf_FlowControl defaults)\<lparr>fc_Enabled := True, fc_RatePerSecond := NaN\<rparr>\<rparr>) = None"
  using nan_rate_is_accepted [of "\<lambda>p. None" "\<lambda>r. r" "defaults\<lparr>cf_Export := (cf_Export defaults)\<lparr>ex_Endpoint := ''e''\<rparr>,
     cf_FlowControl := (cf_FlowControl defaults)\<lparr>fc_Enabled := True\<rparr>\<rparr>"]
  by (simp add: good_config_def defaults_def good_log_def good_export_def good_flow_control_def
      good_performance_def second_def minute_def hour_def)

end
