(* ===== verification/Model.thy ===== *)
theory Model
  imports Regex
begin

text \<open>
  The data model of \<open>internal/model/model.go\<close>: the description of a log file that
  discovery hands to the tailer, and the record that travels from the tailer through flow
  control to the outputs.  A nil map is \<open>None\<close>; a set of levels
  (\<open>map[string]struct{}\<close>) is the list of its keys; a compiled \<open>*regexp.Regexp\<close> is
  its \<open>regexp\<close>, nil being \<open>None\<close>; bytes are a \<open>string\<close>.
\<close>

record multiline =
  StartPattern :: string
  FlushAfter :: duration

record attribute_extractor =
  ExtKey :: string
  ExtPattern :: regexp

record file_target =
  Path :: string
  ReportedPath :: string
  SourceType :: string
  Rule :: string
  StartAt :: string
  Format :: string
  Multiline :: multiline
  Attributes :: "smap option"
  Extractors :: "attribute_extractor list"
  TraceIDExtractor :: "regexp option"
  TraceIDCompletion :: bool
  DropLevels :: "string list"
  ResourceAttributes :: "smap option"
  ResourceKey :: string

record log_record =
  Body :: string
  Timestamp :: time
  ObservedTimestamp :: time
  SeverityText :: string
  SeverityNumber :: int
  Dropped :: bool
  TraceID :: string
  RecAttributes :: "smap option"
  RecResourceAttributes :: "smap option"
  RecResourceKey :: string

text \<open>Ranging over a nil map is ranging over the empty one; reading it gives the zero value.\<close>

definition entries :: "smap option \<Rightarrow> smap" where
  "entries m = (case m of None \<Rightarrow> [] | Some kvs \<Rightarrow> kvs)"

lemma entries_simps [simp]: "entries None = []" "entries (Some m) = m"
  by (simp_all add: entries_def)

text \<open>Writing to a nil map panics.\<close>

definition nmap_set :: "string \<Rightarrow> string \<Rightarrow> smap option \<Rightarrow> gerr + smap option" where
  "nmap_set k v m =
     (case m of None \<Rightarrow> Inl (Panic ''assignment to entry in nil map'')
      | Some kvs \<Rightarrow> Inr (Some (map_set k v kvs)))"

definition nmap_ok :: "smap option \<Rightarrow> bool" where
  "nmap_ok m \<longleftrightarrow> map_ok (entries m)"

lemma nmap_ok_simps [simp]: "nmap_ok None" "nmap_ok (Some m) = map_ok m"
  by (simp_all add: nmap_ok_def)

end
