(* ===== verification/Otlp.thy ===== *)
theory Otlp
  imports Model
begin

text \<open>
  From records to the OTLP request: \<open>recordSize\<close>, \<open>keyValues\<close>, \<open>attributeKey\<close>
  and \<open>BuildRequest\<close> of \<open>internal/exporter/otlphttp.go\<close>.  The protobuf messages are
  the records \<open>otlp_log\<close> and \<open>resource_logs\<close>, which have the fields the code sets.
  \<open>sort.Strings\<close> compares bytes, which is the lexicographic order of \<open>string\<close> here.
\<close>

section \<open>Sizes\<close>

definition entry_size :: "string \<times> string \<Rightarrow> int" where
  "entry_size kv = int (length (fst kv) + length (snd kv) + 32)"

definition recordSize :: "log_record \<Rightarrow> int" where
  "recordSize r =
     int (length (Body r) + length (TraceID r) + 128)
       + sum_list (map entry_size (entries (RecAttributes r)))
       + sum_list (map entry_size (entries (RecResourceAttributes r)))"

section \<open>Attributes\<close>

definition keyValues :: "smap option \<Rightarrow> (string \<times> string) list" where
  "keyValues values =
     map (\<lambda>k. (k, map_get (entries values) k)) (sort (map fst (entries values)))"

abbreviation NUL :: char where "NUL \<equiv> CHR 0x00"

definition attributeKey :: "smap option \<Rightarrow> string" where
  "attributeKey values =
     concat (map (\<lambda>k. k @ [NUL] @ map_get (entries values) k @ [NUL])
       (sort (map fst (entries values))))"

section \<open>The request\<close>

record otlp_log =
  ot_TimeUnixNano :: "64 word"
  ot_ObservedTimeUnixNano :: "64 word"
  ot_SeverityText :: string
  ot_SeverityNumber :: int
  ot_Body :: string
  ot_Attributes :: "(string \<times> string) list"
  ot_TraceId :: string

record resource_logs =
  rl_Resource :: "(string \<times> string) list"
  rl_ScopeName :: string
  rl_LogRecords :: "otlp_log list"

definition otlp_log_of :: "log_record \<Rightarrow> otlp_log" where
  "otlp_log_of r =
     \<lparr>ot_TimeUnixNano = word_of_int (Timestamp r),
      ot_ObservedTimeUnixNano = word_of_int (ObservedTimestamp r),
      ot_SeverityText = SeverityText r, ot_SeverityNumber = SeverityNumber r,
      ot_Body = Body r, ot_Attributes = keyValues (RecAttributes r), ot_TraceId = TraceID r\<rparr>"

definition group_key :: "log_record \<Rightarrow> string" where
  "group_key r = (if RecResourceKey r = [] then attributeKey (RecResourceAttributes r)
                  else RecResourceKey r)"

text \<open>The map of groups; its order is one order of the Go map.\<close>

type_synonym groups = "(string \<times> (smap option \<times> otlp_log list)) list"

definition add_record :: "groups \<Rightarrow> log_record \<Rightarrow> groups" where
  "add_record gs r =
     (case map_of gs (group_key r) of
        None \<Rightarrow> map_set (group_key r) (RecResourceAttributes r, [otlp_log_of r]) gs
      | Some (attrs, lrs) \<Rightarrow> map_set (group_key r) (attrs, lrs @ [otlp_log_of r]) gs)"

definition resource_logs_of :: "string \<times> (smap option \<times> otlp_log list) \<Rightarrow> resource_logs" where
  "resource_logs_of g =
     \<lparr>rl_Resource = keyValues (fst (snd g)), rl_ScopeName = ''log-collector'',
      rl_LogRecords = snd (snd g)\<rparr>"

definition BuildRequest :: "log_record list \<Rightarrow> resource_logs list" where
  "BuildRequest records = map resource_logs_of (foldl add_record [] records)"

section \<open>The order of a map plays no part\<close>

text \<open>Two association lists of one Go map.\<close>

definition same_map :: "smap option \<Rightarrow> smap option \<Rightarrow> bool" where
  "same_map m m' \<longleftrightarrow> map_of (entries m) = map_of (entries m')"

lemma same_map_mset:
  "nmap_ok m \<Longrightarrow> nmap_ok m' \<Longrightarrow> same_map m m' \<Longrightarrow> mset (entries m) = mset (entries m')"
  unfolding nmap_ok_def same_map_def by (rule mset_map_eqI)

lemma sum_entries_same:
  "nmap_ok m \<Longrightarrow> nmap_ok m' \<Longrightarrow> same_map m m' \<Longrightarrow>
     sum_list (map entry_size (entries m)) = sum_list (map entry_size (entries m'))"
  by (metis same_map_mset mset_map sum_mset_sum_list)

lemma sorted_keys_same:
  "nmap_ok m \<Longrightarrow> nmap_ok m' \<Longrightarrow> same_map m m' \<Longrightarrow>
     sort (map fst (entries m)) = sort (map fst (entries m'))"
proof -
  assume "nmap_ok m" "nmap_ok m'" "same_map m m'"
  then have "mset (map fst (entries m)) = mset (map fst (entries m'))"
    by (metis same_map_mset mset_map)
  then show ?thesis by (intro properties_for_sort) simp_all
qed

lemma map_get_same: "same_map m m' \<Longrightarrow> map_get (entries m) k = map_get (entries m') k"
  by (simp add: same_map_def map_get_def)

lemma keyValues_same:
  "nmap_ok m \<Longrightarrow> nmap_ok m' \<Longrightarrow> same_map m m' \<Longrightarrow> keyValues m = keyValues m'"
  by (simp add: keyValues_def sorted_keys_same [of m m'] map_get_same [of m m'])

lemma attributeKey_same:
  "nmap_ok m \<Longrightarrow> nmap_ok m' \<Longrightarrow> same_map m m' \<Longrightarrow> attributeKey m = attributeKey m'"
  by (simp add: attributeKey_def sorted_keys_same [of m m'] map_get_same [of m m'])

lemma map_of_tabulate: "map_of (map (\<lambda>k. (k, f k)) ks) k = (if k \<in> set ks then Some (f k) else None)"
  by (induction ks) auto

lemma keyValues_map_of: "map_of (keyValues m) = map_of (entries m)"
proof
  fix k
  show "map_of (keyValues m) k = map_of (entries m) k"
  proof (cases "map_of (entries m) k")
    case None
    then have "k \<notin> fst ` set (entries m)" by (simp add: map_of_eq_None_iff)
    with None show ?thesis by (simp add: keyValues_def map_of_tabulate)
  next
    case (Some v)
    then have "k \<in> fst ` set (entries m)" by (metis map_of_eq_None_iff option.distinct(1))
    with Some show ?thesis by (simp add: keyValues_def map_of_tabulate map_get_def)
  qed
qed

lemma keyValues_sorted: "sorted (map fst (keyValues m))"
  by (simp add: keyValues_def o_def)

section \<open>The key of a resource identifies it\<close>

text \<open>The NUL bytes separate keys and values, so the key tells maps without NUL bytes apart.\<close>

definition no_nul :: "smap option \<Rightarrow> bool" where
  "no_nul m \<longleftrightarrow> (\<forall>(k, v) \<in> set (entries m). NUL \<notin> set k \<and> NUL \<notin> set v)"

fun nul_pairs :: "(string \<times> string) list \<Rightarrow> string" where
  "nul_pairs [] = []"
| "nul_pairs ((k, v) # kvs) = k @ NUL # v @ NUL # nul_pairs kvs"

lemma attributeKey_pairs: "attributeKey m = nul_pairs (keyValues m)"
proof -
  have "concat (map (\<lambda>k. k @ [NUL] @ f k @ [NUL]) ks) = nul_pairs (map (\<lambda>k. (k, f k)) ks)"
    for f and ks by (induction ks) auto
  then show ?thesis by (simp add: attributeKey_def keyValues_def)
qed

lemma nul_pairs_inj:
  assumes "nul_pairs xs = nul_pairs ys"
    and "\<forall>(k, v) \<in> set xs. NUL \<notin> set k \<and> NUL \<notin> set v"
    and "\<forall>(k, v) \<in> set ys. NUL \<notin> set k \<and> NUL \<notin> set v"
  shows "xs = ys"
  using assms
proof (induction xs arbitrary: ys rule: nul_pairs.induct)
  case 1
  then show ?case by (cases ys rule: nul_pairs.cases) auto
next
  case (2 k v xs)
  then show ?case
    by (cases ys rule: nul_pairs.cases) (auto simp: append_first_eq)
qed

lemma keyValues_no_nul: "no_nul m \<Longrightarrow> (k, v) \<in> set (keyValues m) \<Longrightarrow> NUL \<notin> set k \<and> NUL \<notin> set v"
proof -
  assume n: "no_nul m" and kv: "(k, v) \<in> set (keyValues m)"
  then have "k \<in> fst ` set (entries m)" and v: "v = map_get (entries m) k"
    by (auto simp: keyValues_def)
  then obtain w where w: "map_of (entries m) k = Some w"
    by (metis map_of_eq_None_iff not_None_eq)
  then have "(k, w) \<in> set (entries m)" by (rule map_of_SomeD)
  with n v w show ?thesis by (auto simp: no_nul_def map_get_def)
qed

lemma attributeKey_inj:
  assumes "attributeKey m = attributeKey m'" "no_nul m" "no_nul m'"
  shows "same_map m m'"
proof -
  have "keyValues m = keyValues m'"
    using assms keyValues_no_nul by (intro nul_pairs_inj) (auto simp: attributeKey_pairs)
  then show ?thesis by (metis keyValues_map_of same_map_def)
qed

section \<open>Grouping\<close>

text \<open>A group holds the records of its key, in their order, and the attributes of the first.\<close>

definition group_of :: "log_record list \<Rightarrow> string \<Rightarrow> (smap option \<times> otlp_log list) option" where
  "group_of records k =
     (let rs = filter (\<lambda>r. group_key r = k) records
      in if rs = [] then None else Some (RecResourceAttributes (hd rs), map otlp_log_of rs))"

lemma groups_spec:
  "map_ok (foldl add_record [] records) \<and> map_of (foldl add_record [] records) k = group_of records k"
proof (induction records arbitrary: k rule: rev_induct)
  case Nil
  show ?case by (simp add: group_of_def)
next
  case (snoc r records)
  let ?gs = "foldl add_record [] records"
  have ok: "map_ok ?gs" and lookup: "\<And>k. map_of ?gs k = group_of records k"
    using snoc by simp_all
  have "map_ok (add_record ?gs r)"
    using ok by (auto simp: add_record_def split: option.split)
  moreover have "map_of (add_record ?gs r) k = group_of (records @ [r]) k"
    by (auto simp: add_record_def lookup group_of_def Let_def split: option.splits if_splits)
  ultimately show ?case by simp
qed

lemma group_keys: "fst ` set (foldl add_record [] records) = group_key ` set records"
proof -
  have "k \<in> fst ` set (foldl add_record [] records) \<longleftrightarrow> group_of records k \<noteq> None" for k
    by (metis groups_spec map_of_eq_None_iff)
  moreover have "group_of records k \<noteq> None \<longleftrightarrow> k \<in> group_key ` set records" for k
    by (auto simp: group_of_def Let_def filter_empty_conv)
  ultimately show ?thesis by blast
qed

lemma group_entry:
  assumes "(k, attrs, lrs) \<in> set (foldl add_record [] records)"
  shows "lrs = map otlp_log_of (filter (\<lambda>r. group_key r = k) records)
    \<and> (\<exists>r \<in> set records. group_key r = k \<and> attrs = RecResourceAttributes r)"
proof -
  have "map_of (foldl add_record [] records) k = Some (attrs, lrs)"
    using assms groups_spec [of records k] by (metis map_ok_def map_of_is_SomeI)
  then have g: "group_of records k = Some (attrs, lrs)" using groups_spec by metis
  let ?rs = "filter (\<lambda>r. group_key r = k) records"
  have ne: "?rs \<noteq> []" using g by (auto simp: group_of_def Let_def)
  then have "hd ?rs \<in> set ?rs" by (rule hd_in_set)
  then have "hd ?rs \<in> set records" "group_key (hd ?rs) = k" by auto
  with g ne show ?thesis by (auto simp: group_of_def Let_def)
qed

text \<open>No record is lost, doubled or changed by the grouping.\<close>

lemma mset_partition_keys:
  "distinct ks \<Longrightarrow> f ` set xs \<subseteq> set ks \<Longrightarrow>
     mset (concat (map (\<lambda>k. filter (\<lambda>x. f x = k) xs) ks)) = mset xs"
proof (induction ks arbitrary: xs)
  case (Cons k ks)
  let ?ys = "filter (\<lambda>x. f x \<noteq> k) xs"
  have "f ` set ?ys \<subseteq> set ks" using Cons.prems by auto
  then have "mset (concat (map (\<lambda>j. filter (\<lambda>x. f x = j) ?ys) ks)) = mset ?ys"
    using Cons.IH [of ?ys] Cons.prems(1) by (simp del: filter_filter)
  moreover have "map (\<lambda>j. filter (\<lambda>x. f x = j) ?ys) ks = map (\<lambda>j. filter (\<lambda>x. f x = j) xs) ks"
    using Cons.prems(1) by (auto simp: filter_filter intro!: map_cong filter_cong)
  ultimately have "mset (concat (map (\<lambda>j. filter (\<lambda>x. f x = j) xs) ks)) = mset ?ys"
    by (simp only:)
  then show ?case using multiset_partition [of "mset xs" "\<lambda>x. f x = k"] by simp
qed simp

text \<open>The records of a request with the resource each is under.\<close>

definition request_logs :: "resource_logs list \<Rightarrow> ((string \<times> string) list \<times> otlp_log) list" where
  "request_logs req = concat (map (\<lambda>rl. map (Pair (rl_Resource rl)) (rl_LogRecords rl)) req)"

text \<open>The keys of the records name their resource attributes, as discovery and the fallback of
  \<open>BuildRequest\<close> make them.\<close>

definition keyed :: "log_record \<Rightarrow> bool" where
  "keyed r \<longleftrightarrow> nmap_ok (RecResourceAttributes r) \<and> no_nul (RecResourceAttributes r)
     \<and> RecResourceKey r \<in> {[], attributeKey (RecResourceAttributes r)}"

lemma keyed_group_key: "keyed r \<Longrightarrow> group_key r = attributeKey (RecResourceAttributes r)"
  by (auto simp: keyed_def group_key_def)

lemma keyed_same_resource:
  "keyed r \<Longrightarrow> keyed r' \<Longrightarrow> group_key r = group_key r' \<Longrightarrow>
     keyValues (RecResourceAttributes r) = keyValues (RecResourceAttributes r')"
  using attributeKey_inj keyValues_same unfolding keyed_group_key by (metis keyed_def)

lemma request_logs_records:
  assumes "\<forall>r \<in> set records. keyed r"
  shows "mset (request_logs (BuildRequest records)) =
    mset (map (\<lambda>r. (keyValues (RecResourceAttributes r), otlp_log_of r)) records)"
proof -
  let ?gs = "foldl add_record [] records" and ?out = "\<lambda>r. (keyValues (RecResourceAttributes r), otlp_log_of r)"
  have "map (Pair (rl_Resource (resource_logs_of g))) (rl_LogRecords (resource_logs_of g))
      = map ?out (filter (\<lambda>r. group_key r = fst g) records)" if g: "g \<in> set ?gs" for g
  proof -
    obtain k attrs lrs where k: "g = (k, attrs, lrs)" by (cases g)
    with g group_entry obtain r where r: "r \<in> set records" "group_key r = k"
      "attrs = RecResourceAttributes r" "lrs = map otlp_log_of (filter (\<lambda>r. group_key r = k) records)"
      by blast
    have "keyValues attrs = keyValues (RecResourceAttributes q)"
      if "q \<in> set records" "group_key q = k" for q
      using assms that r keyed_same_resource [of r q] by simp
    with k r(4) show ?thesis by (auto simp: resource_logs_of_def)
  qed
  then have "request_logs (BuildRequest records) =
      concat (map (\<lambda>g. map ?out (filter (\<lambda>r. group_key r = fst g) records)) ?gs)"
    by (simp add: request_logs_def BuildRequest_def o_def cong: map_cong)
  also have "\<dots> = map ?out (concat (map (\<lambda>k. filter (\<lambda>r. group_key r = k) records) (map fst ?gs)))"
    by (simp add: map_concat o_def)
  finally have "mset (request_logs (BuildRequest records)) =
      image_mset ?out (mset (concat (map (\<lambda>k. filter (\<lambda>r. group_key r = k) records) (map fst ?gs))))"
    by simp
  also have "mset (concat (map (\<lambda>k. filter (\<lambda>r. group_key r = k) records) (map fst ?gs))) = mset records"
    using groups_spec [of records] group_keys [of records]
    by (intro mset_partition_keys) (auto simp: map_ok_def)
  finally show ?thesis by simp
qed

section \<open>Properties\<close>

text \<open>What a receiver reads from a record of a request and the resource it is under, and what
  the collector's own record says, both as the resource map, the attribute map and the fields.\<close>

type_synonym log_view =
  "(string \<Rightarrow> string option) \<times> (string \<Rightarrow> string option) \<times> string \<times> string \<times> string \<times> int \<times> 64 word \<times> 64 word"

definition sent_view :: "(string \<times> string) list \<times> otlp_log \<Rightarrow> log_view" where
  "sent_view s =
     (map_of (fst s), map_of (ot_Attributes (snd s)), ot_Body (snd s), ot_TraceId (snd s),
      ot_SeverityText (snd s), ot_SeverityNumber (snd s),
      ot_TimeUnixNano (snd s), ot_ObservedTimeUnixNano (snd s))"

definition record_view :: "log_record \<Rightarrow> log_view" where
  "record_view r =
     (map_of (entries (RecResourceAttributes r)), map_of (entries (RecAttributes r)), Body r, TraceID r,
      SeverityText r, SeverityNumber r,
      word_of_int (Timestamp r), word_of_int (ObservedTimestamp r))"

lemma sent_view_record:
  "sent_view (keyValues (RecResourceAttributes r), otlp_log_of r) = record_view r"
  by (simp add: sent_view_def record_view_def otlp_log_of_def keyValues_map_of)

text \<open>C13. What the request says, read back as maps and fields, is what the records of the
  batch say, each record once: its body, trace id, severity, times (as 64-bit numbers), its
  attributes, and its own resource attributes as the resource it is under.  The key a record
  carries must be empty or the canonical key of its resource attributes, and these attributes
  must hold no NUL byte.\<close>

theorem request_keeps_records:
  assumes "\<forall>r \<in> set records. keyed r"
  shows "mset (map sent_view (request_logs (BuildRequest records))) = mset (map record_view records)"
  using arg_cong [OF request_logs_records [OF assms], of "image_mset sent_view"]
  by (simp add: sent_view_record o_def image_mset.compositionality flip: mset_map)

definition plain_record :: "string \<Rightarrow> smap \<Rightarrow> log_record" where
  "plain_record body res = \<lparr>Body = body, Timestamp = 1, ObservedTimestamp = 2, SeverityText = [],
     SeverityNumber = 0, Dropped = False, TraceID = [], RecAttributes = None,
     RecResourceAttributes = Some res, RecResourceKey = []\<rparr>"

theorem request_keeps_records_witness:
  "image_mset (\<lambda>v. fst (snd (snd v))) (mset (map sent_view (request_logs (BuildRequest
      [plain_record ''a'' [(''f'', ''x'')], plain_record ''b'' [], plain_record ''c'' [(''f'', ''x'')]]))))
   = {# ''a'', ''b'', ''c'' #}"
  using request_keeps_records [of "[plain_record ''a'' [(''f'', ''x'')], plain_record ''b'' [],
      plain_record ''c'' [(''f'', ''x'')]]"]
  by (simp add: keyed_def plain_record_def no_nul_def record_view_def)

text \<open>Within a group the records keep the order of the batch, and the groups are the keys
  of the batch, each once.\<close>

theorem request_groups_in_order:
  "distinct (map fst (foldl add_record [] records))
   \<and> set (map fst (foldl add_record [] records)) = group_key ` set records
   \<and> (\<forall>(k, attrs, lrs) \<in> set (foldl add_record [] records).
        lrs = map otlp_log_of (filter (\<lambda>r. group_key r = k) records)
        \<and> (\<exists>r \<in> set records. group_key r = k \<and> attrs = RecResourceAttributes r))"
  using groups_spec [of records] group_keys [of records] group_entry [of _ _ _ records]
  by (auto simp: map_ok_def)

theorem request_groups_in_order_witness:
  "list_all (\<lambda>(k, attrs, lrs).
       lrs = map otlp_log_of (filter (\<lambda>r. group_key r = k) [plain_record ''a'' [], plain_record ''b'' []]))
     (foldl add_record [] [plain_record ''a'' [], plain_record ''b'' []])"
  using request_groups_in_order [of "[plain_record ''a'' [], plain_record ''b'' []]"]
  unfolding list_all_iff by fast

text \<open>C33. The key of a resource tells resources apart: two attribute maps without NUL bytes
  have the same key exactly if they are the same map.\<close>

theorem attributeKey_identifies:
  assumes "nmap_ok m" "nmap_ok m'" "no_nul m" "no_nul m'"
  shows "attributeKey m = attributeKey m' \<longleftrightarrow> same_map m m'"
  using attributeKey_inj attributeKey_same assms by blast

theorem attributeKey_identifies_witness:
  "attributeKey (Some [(''a'', ''b'')]) \<noteq> attributeKey (Some [(''a'', ''c'')])"
  using attributeKey_identifies [of "Some [(''a'', ''b'')]" "Some [(''a'', ''c'')]"]
  by (auto simp: no_nul_def same_map_def fun_eq_iff)

text \<open>What is sent does not depend on the order in which Go ranges over a map: equal maps
  give equal attribute lists, which are sorted and have the entries of the map, and equal
  sizes.\<close>

theorem encoding_order_free:
  assumes "nmap_ok m" "nmap_ok m'" "same_map m m'"
  shows "keyValues m = keyValues m' \<and> sorted (map fst (keyValues m))
    \<and> map_of (keyValues m) = map_of (entries m)
    \<and> recordSize (r\<lparr>RecAttributes := m\<rparr>) = recordSize (r\<lparr>RecAttributes := m'\<rparr>)"
  using assms sum_entries_same [OF assms]
  by (simp add: keyValues_same [OF assms] keyValues_sorted keyValues_map_of same_map_def recordSize_def)

theorem encoding_order_free_witness:
  "keyValues (Some [(''a'', ''1''), (''b'', ''2'')]) = keyValues (Some [(''b'', ''2''), (''a'', ''1'')])"
  using encoding_order_free [of "Some [(''a'', ''1''), (''b'', ''2'')]" "Some [(''b'', ''2''), (''a'', ''1'')]"]
  by (simp add: same_map_def fun_eq_iff)

end
