(* ===== verification/Severity.thy ===== *)
theory Severity
  imports Model
begin

text \<open>
  Severity detection of \<open>internal/tailer/tailer.go\<close> (\<open>severityPattern\<close>,
  \<open>parseSeverity\<close>), with its characterisation: the first delimited level keyword of the
  first line decides.
\<close>

section \<open>The code\<close>

definition severity_delims :: "(rune \<times> rune) list" where
  "severity_delims = [(9, 10), (12, 13), (32, 32), (91, 91), (93, 93), (40, 40), (41, 41),
     (58, 58), (61, 61), (45, 45)]"

definition severity_words_re :: regexp where
  "severity_words_re = alternatives
     [fold_lit ''TRACE'', fold_lit ''DEBUG'', fold_lit ''INFO'', fold_lit ''NOTICE'',
      RCat (fold_lit ''WARN'') (RAlt (fold_lit ''ING'') REmpty),
      fold_lit ''ERROR'', fold_lit ''ERR'', fold_lit ''FATAL'', fold_lit ''CRITICAL'',
      fold_lit ''CRIT'', fold_lit ''ALERT'', fold_lit ''EMERG'', fold_lit ''PANIC'']"

definition severityPattern :: regexp where
  "severityPattern =
     RCat (RAlt RBeginText (RClass severity_delims))
       (RCat (RCapture 1 severity_words_re)
         (RAlt REndText (RClass severity_delims)))"

text \<open>The \<open>switch\<close> on the upper-cased keyword.\<close>

definition severity_of_word :: "string \<Rightarrow> string \<times> int" where
  "severity_of_word w =
     (if w = ''TRACE'' then (''TRACE'', 1)
      else if w = ''DEBUG'' then (''DEBUG'', 5)
      else if w = ''INFO'' \<or> w = ''NOTICE'' then (''INFO'', 9)
      else if w = ''WARN'' \<or> w = ''WARNING'' then (''WARN'', 13)
      else if w = ''ERROR'' \<or> w = ''ERR'' then (''ERROR'', 17)
      else if w = ''FATAL'' \<or> w = ''CRITICAL'' \<or> w = ''CRIT'' \<or> w = ''ALERT'' \<or> w = ''EMERG''
        \<or> w = ''PANIC'' then (''FATAL'', 21)
      else ('''', 0))"

text \<open>\<open>strings.ToUpper\<close> is applied to a group of ASCII letters, so the table for other
  runes plays no part.\<close>

definition first_line :: "string \<Rightarrow> string" where
  "first_line body = takeWhile (\<lambda>c. c \<noteq> newline) body"

definition parseSeverity :: "string \<Rightarrow> string \<times> int" where
  "parseSeverity body =
     (case find_string_submatch severityPattern (first_line body) of
        None \<Rightarrow> ('''', 0)
      | Some ms \<Rightarrow> if length ms < 2 then ('''', 0)
                   else severity_of_word (to_upper ascii_upper (ms ! 1)))"

section \<open>What it computes\<close>

definition severity_words :: "string list" where
  "severity_words = [''TRACE'', ''DEBUG'', ''INFO'', ''NOTICE'', ''WARNING'', ''WARN'', ''ERROR'',
     ''ERR'', ''FATAL'', ''CRITICAL'', ''CRIT'', ''ALERT'', ''EMERG'', ''PANIC'']"

definition keyword_at :: "rune list \<Rightarrow> nat \<Rightarrow> string \<Rightarrow> bool" where
  "keyword_at rs p w \<longleftrightarrow>
     map ascii_upper (take (length w) (drop p rs)) = map byte w
     \<and> (p = 0 \<or> in_class severity_delims (rs ! (p - 1)))
     \<and> (p + length w = length rs \<or> in_class severity_delims (rs ! (p + length w)))"

definition keywords_of :: "rune list \<Rightarrow> (nat \<times> string) list" where
  "keywords_of rs =
     concat (map (\<lambda>p. map (Pair p) (filter (keyword_at rs p) severity_words)) [0..<length rs])"

definition severity_spec :: "rune list \<Rightarrow> string \<times> int" where
  "severity_spec rs = (case keywords_of rs of [] \<Rightarrow> ('''', 0) | (p, w) # _ \<Rightarrow> severity_of_word w)"

section \<open>Matching literals\<close>

fun lit_at :: "chunked \<Rightarrow> nat \<Rightarrow> string \<Rightarrow> bool" where
  "lit_at cs i [] = True"
| "lit_at cs i (c # w) =
     (i < length cs \<and> ascii_upper (fst (cs ! i)) = byte c \<and> lit_at cs (Suc i) w)"

definition upper_letters :: "string \<Rightarrow> bool" where
  "upper_letters w \<longleftrightarrow> list_all (\<lambda>c. 65 \<le> byte c \<and> byte c \<le> 90) w"

lemma match_fold_char:
  assumes "65 \<le> byte c" "byte c \<le> 90"
  shows "re_match cs (fold_char c) i cap =
    (if i < length cs \<and> ascii_upper (fst (cs ! i)) = byte c then [(Suc i, cap)] else [])"
  using assms by (auto simp: fold_char_def Let_def in_class_def ascii_upper_def)

lemma match_fold_lit:
  "upper_letters w \<Longrightarrow>
     re_match cs (fold_lit w) i cap = (if lit_at cs i w then [(i + length w, cap)] else [])"
  by (induction w arbitrary: i) (auto simp: upper_letters_def match_fold_char)

lemma lit_at_append: "lit_at cs i (v @ w) \<longleftrightarrow> lit_at cs i v \<and> lit_at cs (i + length v) w"
  by (induction v arbitrary: i) auto

lemma lit_at_take:
  "lit_at cs i w \<longleftrightarrow> map ascii_upper (take (length w) (drop i (map fst cs))) = map byte w"
proof (induction w arbitrary: i)
  case (Cons c w)
  show ?case
  proof (cases "i < length cs")
    case True
    then have "drop i (map fst cs) = fst (cs ! i) # drop (Suc i) (map fst cs)"
      by (metis Cons_nth_drop_Suc length_map nth_map)
    with True Cons show ?thesis by simp
  qed simp
qed simp

section \<open>Matches of the whole pattern\<close>

definition end_ok :: "chunked \<Rightarrow> nat \<Rightarrow> bool" where
  "end_ok cs e \<longleftrightarrow> length cs \<le> e \<or> in_class severity_delims (fst (cs ! e))"

lemma words_match:
  "re_match cs severity_words_re i cap =
     map (\<lambda>w. (i + length w, cap)) (filter (lit_at cs i) severity_words)"
proof -
  have warning: "lit_at cs i ''WARNING'' \<longleftrightarrow> lit_at cs i ''WARN'' \<and> lit_at cs (Suc (Suc (Suc (Suc i)))) ''ING''"
    using lit_at_append [of cs i "''WARN''" "''ING''"] by (simp del: lit_at.simps)
  have up: "list_all upper_letters (''ING'' # severity_words)"
    by (simp add: upper_letters_def severity_words_def)
  show ?thesis
    using up by (simp add: severity_words_re_def severity_words_def match_fold_lit warning
        del: fold_lit.simps lit_at.simps)
qed

lemma tail_match:
  "re_match cs (RAlt REndText (RClass severity_delims)) e cap =
     (if end_ok cs e then [(if length cs \<le> e then e else Suc e, cap)] else [])"
  by (auto simp: end_ok_def)

definition words_at :: "chunked \<Rightarrow> nat \<Rightarrow> string list" where
  "words_at cs p = filter (\<lambda>w. lit_at cs p w \<and> end_ok cs (p + length w)) severity_words"

definition start_ok :: "chunked \<Rightarrow> nat \<Rightarrow> bool" where
  "start_ok cs p \<longleftrightarrow> p = 0 \<or> in_class severity_delims (fst (cs ! (p - 1)))"

definition capture_of :: "nat \<times> string \<Rightarrow> captures" where
  "capture_of pw = [(1, (fst pw, fst pw + length (snd pw)))]"

definition cands :: "chunked \<Rightarrow> nat \<Rightarrow> (nat \<times> string) list" where
  "cands cs p = (if start_ok cs p then map (Pair p) (words_at cs p) else [])"

definition severity_body :: regexp where
  "severity_body = RCat (RCapture 1 severity_words_re) (RAlt REndText (RClass severity_delims))"

lemma body_match:
  "map snd (re_match cs severity_body p []) = map (capture_of \<circ> Pair p) (words_at cs p)"
proof -
  have "re_match cs (RCapture 1 severity_words_re) p [] =
      map (\<lambda>w. (p + length w, capture_of (p, w))) (filter (lit_at cs p) severity_words)"
    by (simp add: words_match capture_of_def)
  then show ?thesis
    by (simp add: severity_body_def cat_from_concat tail_match words_at_def o_def concat_map_if
        del: re_match.simps(2,4,7,9))
qed

definition here :: "chunked \<Rightarrow> nat \<Rightarrow> (nat \<times> string) list" where
  "here cs i = (if i = 0 then cands cs 0 else []) @ (if i < length cs then cands cs (Suc i) else [])"

lemma severityPattern_body:
  "severityPattern = RCat (RAlt RBeginText (RClass severity_delims)) severity_body"
  by (simp add: severityPattern_def severity_body_def)

lemma search_step: "map snd (re_match cs severityPattern i []) = map capture_of (here cs i)"
  unfolding severityPattern_body
  using body_match [of cs i] body_match [of cs "Suc i"]
  by (auto simp: cands_def start_ok_def here_def)

definition first_capture :: "(nat \<times> string) list \<Rightarrow> captures option" where
  "first_capture pws = (case pws of [] \<Rightarrow> None | pw # _ \<Rightarrow> Some (capture_of pw))"

abbreviation search_capture :: "chunked \<Rightarrow> nat \<Rightarrow> captures option" where
  "search_capture cs i \<equiv> map_option (snd \<circ> snd) (re_search cs severityPattern i)"

lemma search_unfold:
  "search_capture cs i =
     (if here cs i = [] then (if i < length cs then search_capture cs (Suc i) else None)
      else first_capture (here cs i))"
proof (cases "re_match cs severityPattern i []")
  case Nil
  with search_step [of cs i] have "here cs i = []" by simp
  with Nil show ?thesis by (subst re_search.simps) simp
next
  case (Cons m ms)
  with search_step [of cs i] obtain pw pws where "here cs i = pw # pws" "snd m = capture_of pw"
    by auto
  with Cons show ?thesis
    by (subst re_search.simps) (simp add: first_capture_def split: prod.split)
qed

lemma first_capture_append:
  "first_capture (xs @ ys) = (if xs = [] then first_capture ys else first_capture xs)"
  by (cases xs) (simp_all add: first_capture_def)

lemma search_from:
  "0 < i \<Longrightarrow>
     search_capture cs i = first_capture (concat (map (cands cs) [Suc i..<Suc (length cs)]))"
proof (induction "length cs - i" arbitrary: i)
  case 0
  then show ?case
    by (subst search_unfold) (simp add: here_def first_capture_def)
next
  case (Suc n)
  then have i: "i < length cs" "n = length cs - Suc i" by simp_all
  with Suc have IH: "search_capture cs (Suc i) =
      first_capture (concat (map (cands cs) [Suc (Suc i)..<Suc (length cs)]))" by simp
  have "[Suc i..<Suc (length cs)] = Suc i # [Suc (Suc i)..<Suc (length cs)]"
    using i by (simp add: upt_rec)
  then have "concat (map (cands cs) [Suc i..<Suc (length cs)]) =
      here cs i @ concat (map (cands cs) [Suc (Suc i)..<Suc (length cs)])"
    using i Suc.prems by (simp add: here_def del: upt_Suc)
  with IH i show ?case
    by (subst search_unfold) (simp add: first_capture_append del: upt_Suc)
qed

lemma search_all:
  "search_capture cs 0 = first_capture (concat (map (cands cs) [0..<Suc (length cs)]))"
proof (cases cs)
  case Nil
  then show ?thesis
    by (subst search_unfold) (simp add: here_def first_capture_def split: list.split)
next
  case (Cons c cs')
  then have "[0..<Suc (length cs)] = 0 # Suc 0 # [Suc (Suc 0)..<Suc (length cs)]"
    by (simp add: upt_rec)
  then have "concat (map (cands cs) [0..<Suc (length cs)]) =
      here cs 0 @ concat (map (cands cs) [Suc (Suc 0)..<Suc (length cs)])"
    using Cons by (simp add: here_def del: upt_Suc)
  with Cons search_from [of "Suc 0" cs] show ?thesis
    by (subst search_unfold) (simp add: first_capture_append del: upt_Suc)
qed

section \<open>The captured keyword\<close>

lemma lit_at_bound: "lit_at cs p w \<Longrightarrow> p \<le> length cs \<Longrightarrow> p + length w \<le> length cs"
  by (induction w arbitrary: p) (simp, fastforce)

lemma words_upper: "w \<in> set severity_words \<Longrightarrow> upper_letters w \<and> w \<noteq> []"
  by (auto simp: severity_words_def upper_letters_def)

lemma cands_keyword_at:
  assumes "p < length cs"
  shows "cands cs p = map (Pair p) (filter (keyword_at (map fst cs) p) severity_words)"
proof -
  have "(start_ok cs p \<and> lit_at cs p w \<and> end_ok cs (p + length w)) = keyword_at (map fst cs) p w"
    for w
  proof (cases "lit_at cs p w")
    case True
    then have "p + length w \<le> length cs" using assms by (intro lit_at_bound) simp_all
    with True assms show ?thesis
      by (cases "p + length w = length cs")
         (auto simp: keyword_at_def start_ok_def end_ok_def lit_at_take)
  qed (simp add: keyword_at_def lit_at_take)
  then show ?thesis
    by (auto simp: cands_def words_at_def cong: filter_cong)
qed

lemma cands_end: "cands cs (length cs) = []"
proof -
  have "\<not> lit_at cs (length cs) w" if "w \<in> set severity_words" for w
    using lit_at_bound [of cs "length cs" w] words_upper [OF that] by auto
  then show ?thesis by (simp add: cands_def words_at_def)
qed

lemma all_cands: "concat (map (cands cs) [0..<Suc (length cs)]) = keywords_of (map fst cs)"
proof -
  have "map (cands cs) [0..<length cs] =
      map (\<lambda>p. map (Pair p) (filter (keyword_at (map fst cs) p) severity_words)) [0..<length cs]"
    by (rule map_cong) (simp_all add: cands_keyword_at)
  then show ?thesis by (simp add: keywords_of_def cands_end del: map_eq_conv)
qed

lemma ascii_upper_less: "ascii_upper r < 128 \<Longrightarrow> r < 128"
  by (simp add: ascii_upper_def split: if_splits)

lemma captured_word:
  assumes "(p, w) \<in> set (keywords_of (runes s))"
  shows "to_upper ascii_upper (text_between (chunks s) p (p + length w)) = w"
proof -
  let ?seg = "take (length w) (drop p (chunks s))"
  from assms have w: "w \<in> set severity_words" and
    seg: "map ascii_upper (map fst ?seg) = map byte w"
    by (auto simp: keywords_of_def keyword_at_def runes_def take_map drop_map)
  have letters: "\<forall>c \<in> set w. byte c < 128"
    using words_upper [OF w] by (fastforce simp: upper_letters_def list_all_iff)
  have "ascii_upper r < 128" if "r \<in> set (map fst ?seg)" for r
  proof -
    have "ascii_upper r \<in> set (map byte w)" using that seg by (metis image_eqI set_map)
    with letters show ?thesis by auto
  qed
  then have asc: "\<forall>r \<in> set (map fst ?seg). r < 128"
    by (blast intro: ascii_upper_less)
  have "set ?seg \<subseteq> set (chunks s)" by (meson set_drop_subset set_take_subset subset_trans)
  then have "text_between (chunks s) p (p + length w) = of_runes (map fst ?seg)"
    unfolding text_between_def using concat_ascii_chunks [OF _ asc] by simp
  moreover have "runes (of_runes (map fst ?seg)) = map fst ?seg"
    using asc by (intro runes_of_runes) (auto simp: valid_rune_def)
  ultimately show ?thesis
    by (simp add: to_upper_def seg [unfolded map_map] of_runes_bytes [OF letters])
qed

lemma num_subexp_severityPattern: "num_subexp severityPattern = 1"
  by (simp add: severityPattern_def severity_words_re_def fold_char_def Let_def)

theorem parseSeverity_spec: "parseSeverity body = severity_spec (runes (first_line body))"
proof -
  let ?l = "first_line body"
  have cap: "search_capture (chunks ?l) 0 = first_capture (keywords_of (runes ?l))"
    by (simp only: search_all all_cands runes_def)
  show ?thesis
  proof (cases "keywords_of (runes ?l)")
    case Nil
    with cap have "re_search (chunks ?l) severityPattern 0 = None"
      by (simp add: first_capture_def)
    with Nil show ?thesis
      by (simp add: parseSeverity_def find_string_submatch_def severity_spec_def)
  next
    case (Cons pw pws)
    obtain p w where pw: "pw = (p, w)" by (cases pw)
    with Cons cap obtain i j where
      "re_search (chunks ?l) severityPattern 0 = Some (i, j, [(1, (p, p + length w))])"
      by (auto simp: first_capture_def capture_of_def)
    moreover have "to_upper ascii_upper (text_between (chunks ?l) p (p + length w)) = w"
      using Cons pw by (intro captured_word) simp
    ultimately show ?thesis
      using Cons pw by (simp add: parseSeverity_def find_string_submatch_def severity_spec_def
          num_subexp_severityPattern group_text_def Let_def)
  qed
qed

section \<open>Properties\<close>

text \<open>C15. \<open>parseSeverity\<close> looks at the first line only and finds the first keyword in it,
  in any letter case, that is delimited on both sides; the longer of two keywords that fit at
  one place wins.  Without one the severity is unset.\<close>

theorem parseSeverity_first_keyword:
  "parseSeverity body = severity_spec (runes (first_line body))
   \<and> parseSeverity (body @ newline # rest) = parseSeverity body"
proof -
  have "first_line (body @ newline # rest) = first_line body"
    by (induction body) (simp_all add: first_line_def)
  then show ?thesis by (simp only: parseSeverity_spec)
qed

end
