(* ===== verification/Prepare.thy ===== *)
theory Prepare
  imports Severity
begin

text \<open>
  From a line or a merged body to a record: \<open>parseTraceID\<close>, \<open>parseCRI\<close> and
  \<open>preparedRecord\<close> of \<open>internal/tailer/tailer.go\<close>.  \<open>time.Parse\<close> with the layout
  RFC3339Nano is the argument \<open>parse_time\<close>.
\<close>

section \<open>Trace ids\<close>

definition parseTraceID :: "string \<Rightarrow> bool \<Rightarrow> string" where
  "parseTraceID value completion =
     (if \<not> completion then value
      else
        let value' = (if length value = 16 then ''0000000000000000'' @ value else value) in
        if length value' \<noteq> 32 then []
        else (case hex_decode value' of
                None \<Rightarrow> []
              | Some traceID \<Rightarrow> if list_ex (\<lambda>b. b \<noteq> CHR 0x00) traceID then traceID else []))"

text \<open>The hexadecimal form (\<open>%x\<close>) of a byte string, to state the round trip.\<close>

definition hex_char :: "nat \<Rightarrow> char" where
  "hex_char n = (if n < 10 then char_of (48 + n) else char_of (87 + n))"

fun hex_encode :: "string \<Rightarrow> string" where
  "hex_encode [] = []"
| "hex_encode (c # cs) = hex_char (byte c div 16) # hex_char (byte c mod 16) # hex_encode cs"

definition lower_char :: "char \<Rightarrow> char" where
  "lower_char c = (if 65 \<le> byte c \<and> byte c \<le> 90 then char_of (byte c + 32) else c)"

lemma hex_digit_char:
  assumes "hex_digit c = Some x"
  shows "x < 16 \<and> hex_char x = lower_char c"
proof -
  consider "48 \<le> byte c" "byte c \<le> 57" "x = byte c - 48"
    | "97 \<le> byte c" "byte c \<le> 102" "x = byte c - 87"
    | "65 \<le> byte c" "byte c \<le> 70" "x = byte c - 55"
    using assms by (auto simp: hex_digit_def Let_def split: if_splits)
  then show ?thesis
    by cases (auto simp: hex_char_def lower_char_def)
qed

lemma hex_decode_encode: "hex_decode s = Some bs \<Longrightarrow> hex_encode bs = map lower_char s"
proof (induction s arbitrary: bs rule: hex_decode.induct)
  case (3 c d cs)
  then obtain x y bs' where h: "hex_digit c = Some x" "hex_digit d = Some y"
    "hex_decode cs = Some bs'" "bs = char_of (16 * x + y) # bs'"
    by (auto split: option.splits)
  with hex_digit_char [of c x] hex_digit_char [of d y]
  have "x < 16" "y < 16" "hex_char x = lower_char c" "hex_char y = lower_char d" by auto
  with h 3 show ?case by simp
qed auto

text \<open>With completion, a non-nil trace id is the 16 bytes the padded value spells, and not zero.\<close>

lemma parseTraceID_completed:
  assumes "parseTraceID value True = bs" "bs \<noteq> []"
  shows "length bs = 16 \<and> list_ex (\<lambda>b. b \<noteq> CHR 0x00) bs
    \<and> hex_encode bs = map lower_char (replicate (32 - length value) CHR ''0'' @ value)"
proof -
  let ?v = "if length value = 16 then ''0000000000000000'' @ value else value"
  from assms have v: "length ?v = 32" "hex_decode ?v = Some bs" "list_ex (\<lambda>b. b \<noteq> CHR 0x00) bs"
    by (auto simp: parseTraceID_def Let_def split: if_splits option.splits)
  have "replicate (32 - length value) CHR ''0'' @ value = ?v"
    using v(1) by (auto simp: numeral_eq_Suc split: if_splits)
  with v hex_decode_length [OF v(2)] hex_decode_encode [OF v(2)] show ?thesis by simp
qed

section \<open>CRI lines\<close>

definition parseCRI :: "(string \<Rightarrow> time option) \<Rightarrow> string \<Rightarrow>
    (string \<times> time \<times> string \<times> string) option" where
  "parseCRI parse_time line =
     (let parts = split_n 4 CHR '' '' line in
      if length parts \<noteq> 4 \<or> (parts ! 1 \<noteq> ''stdout'' \<and> parts ! 1 \<noteq> ''stderr'')
         \<or> (parts ! 2 \<noteq> ''P'' \<and> parts ! 2 \<noteq> ''F'') then None
      else (case parse_time (parts ! 0) of
              None \<Rightarrow> None
            | Some ts \<Rightarrow> Some (parts ! 3, ts, parts ! 1, parts ! 2)))"

lemma split_n_append:
  "c \<notin> set a \<Longrightarrow> split_n (Suc (Suc n)) c (a @ c # s) = a # split_n (Suc n) c s"
  by (simp add: takeWhile_append dropWhile_append)

text \<open>A line in the CRI format is taken apart without loss; the body may contain spaces.\<close>

lemma parseCRI_line:
  assumes "CHR '' '' \<notin> set ts" "parse_time ts = Some t"
    and "stream \<in> {''stdout'', ''stderr''}" "flag \<in> {''P'', ''F''}"
  shows "parseCRI parse_time (ts @ '' '' @ stream @ '' '' @ flag @ '' '' @ body)
    = Some (body, t, stream, flag)"
proof -
  have "CHR '' '' \<notin> set stream" "CHR '' '' \<notin> set flag" using assms(3,4) by auto
  then have "split_n 4 CHR '' '' (ts @ '' '' @ stream @ '' '' @ flag @ '' '' @ body)
      = [ts, stream, flag, body]"
    using assms(1) by (simp add: numeral_eq_Suc split_n_append split_n.simps(2) del: split_n.simps(3))
  with assms show ?thesis by (auto simp: parseCRI_def Let_def)
qed

lemma parseCRI_Some:
  assumes "parseCRI parse_time line = Some (body, t, stream, flag)"
  shows "\<exists>ts. line = ts @ '' '' @ stream @ '' '' @ flag @ '' '' @ body \<and> parse_time ts = Some t
    \<and> stream \<in> {''stdout'', ''stderr''} \<and> flag \<in> {''P'', ''F''}"
proof -
  let ?ps = "split_n 4 CHR '' '' line"
  have j: "join '' '' ?ps = line" using join_split_n [of "CHR '' ''" 3 line] by (simp add: numeral_eq_Suc)
  from assms have "length ?ps = 4"
    by (auto simp: parseCRI_def Let_def split: if_splits option.splits)
  then obtain a b c d where "?ps = [a, b, c, d]"
    by (auto simp: numeral_eq_Suc length_Suc_conv)
  with assms j show ?thesis
    by (auto simp: parseCRI_def Let_def split: if_splits option.splits)
qed

section \<open>Records\<close>

definition copy_map :: "smap option \<Rightarrow> smap" where
  "copy_map m = foldl (\<lambda>r (k, v). map_set k v r) [] (entries m)"

definition fallback_resource :: "file_target \<Rightarrow> smap" where
  "fallback_resource target =
     (let resource = map_set ''log.file.path'' (ReportedPath target)
                       (copy_map (Attributes target));
          resource = (if map_get resource ''log.file.path'' = []
                      then map_set ''log.file.path'' (Path target) resource else resource);
          resource = map_set ''log.source.type'' (SourceType target) resource
      in map_set ''log.source.rule'' (Rule target) resource)"

text \<open>One extractor: the first group of its match, when it is not empty.\<close>

definition first_group :: "regexp \<Rightarrow> string \<Rightarrow> string option" where
  "first_group re body =
     (case find_string_submatch re body of
        Some ms \<Rightarrow> if 1 < length ms \<and> ms ! 1 \<noteq> [] then Some (ms ! 1) else None
      | None \<Rightarrow> None)"

fun apply_extractors ::
    "attribute_extractor list \<Rightarrow> string \<Rightarrow> smap option \<Rightarrow> gerr + smap option" where
  "apply_extractors [] body attrs = Inr attrs"
| "apply_extractors (x # xs) body attrs =
     (case first_group (ExtPattern x) body of
        None \<Rightarrow> apply_extractors xs body attrs
      | Some v \<Rightarrow>
          (case nmap_set (ExtKey x) v attrs of
             Inl e \<Rightarrow> Inl e
           | Inr attrs' \<Rightarrow> apply_extractors xs body attrs'))"

definition extract_trace_id :: "file_target \<Rightarrow> string \<Rightarrow> string" where
  "extract_trace_id target body =
     (case TraceIDExtractor target of
        None \<Rightarrow> []
      | Some re \<Rightarrow>
          (case find_string_submatch re body of
             Some ms \<Rightarrow> if 1 < length ms then parseTraceID (ms ! 1) (TraceIDCompletion target)
                         else []
           | None \<Rightarrow> []))"

text \<open>\<open>preparedRecord\<close>.  When the caller's map is not nil it is the map of the record, so
  the caller sees the writes: they are the \<open>RecAttributes\<close> of the result.\<close>

definition preparedRecord ::
    "file_target \<Rightarrow> string \<Rightarrow> time \<Rightarrow> smap option \<Rightarrow> gerr + log_record" where
  "preparedRecord target body timestamp attrs =
     (let resource = (case ResourceAttributes target of
                        None \<Rightarrow> Some (fallback_resource target) | Some m \<Rightarrow> Some m);
          (severityText, severityNumber) = parseSeverity body;
          attrs1 = (if (severityText \<noteq> [] \<or> Extractors target \<noteq> []) \<and> attrs = None
                    then Some [] else attrs)
      in case (if severityText \<noteq> [] then nmap_set ''log.level'' severityText attrs1
               else Inr attrs1) of
           Inl e \<Rightarrow> Inl e
         | Inr attrs2 \<Rightarrow>
             (case apply_extractors (Extractors target) body attrs2 of
                Inl e \<Rightarrow> Inl e
              | Inr attrs3 \<Rightarrow>
                  Inr \<lparr>Body = body, Timestamp = timestamp, ObservedTimestamp = zero_time,
                    SeverityText = severityText, SeverityNumber = severityNumber,
                    Dropped = (severityText \<in> set (DropLevels target)),
                    TraceID = extract_trace_id target body,
                    RecAttributes = attrs3, RecResourceAttributes = resource,
                    RecResourceKey = ResourceKey target\<rparr>))"

section \<open>What a record holds\<close>

text \<open>The attributes the extractors give: a later extractor of the same key wins.\<close>

definition extracted :: "attribute_extractor list \<Rightarrow> string \<Rightarrow> string \<rightharpoonup> string" where
  "extracted xs body = map_of (rev (concat (map (\<lambda>x.
      case first_group (ExtPattern x) body of None \<Rightarrow> [] | Some v \<Rightarrow> [(ExtKey x, v)]) xs)))"

lemma extracted_Nil [simp]: "extracted [] body = Map.empty"
  by (simp add: extracted_def)

lemma extracted_Cons:
  "extracted (x # xs) body =
     (case first_group (ExtPattern x) body of None \<Rightarrow> Map.empty | Some v \<Rightarrow> [ExtKey x \<mapsto> v])
       ++ extracted xs body"
  by (simp add: extracted_def split: option.split)

lemma apply_extractors_Some:
  "\<exists>m'. apply_extractors xs body (Some m) = Inr (Some m')
      \<and> map_of m' = map_of m ++ extracted xs body \<and> (map_ok m \<longrightarrow> map_ok m')"
proof (induction xs arbitrary: m)
  case (Cons x xs)
  show ?case
  proof (cases "first_group (ExtPattern x) body")
    case None
    with Cons [of m] show ?thesis by (simp add: extracted_Cons)
  next
    case (Some v)
    obtain m' where m': "apply_extractors xs body (Some (map_set (ExtKey x) v m)) = Inr (Some m')"
      "map_of m' = map_of (map_set (ExtKey x) v m) ++ extracted xs body"
      "map_ok (map_set (ExtKey x) v m) \<longrightarrow> map_ok m'"
      using Cons by blast
    moreover have "map_of (map_set (ExtKey x) v m) ++ extracted xs body =
        map_of m ++ extracted (x # xs) body"
      using Some by (simp add: extracted_Cons)
    ultimately show ?thesis
      using Some by (simp add: nmap_set_def del: map_of_map_set)
  qed
qed simp

definition level_attr :: "string \<Rightarrow> string \<rightharpoonup> string" where
  "level_attr severity = (if severity = [] then Map.empty else [''log.level'' \<mapsto> severity])"

lemma level_attr_step:
  "\<exists>m'. (if t \<noteq> [] then nmap_set ''log.level'' t (Some m) else Inr (Some m)) = Inr (Some m')
      \<and> map_of m' = map_of m ++ level_attr t \<and> (map_ok m \<longrightarrow> map_ok m')"
  by (simp add: nmap_set_def level_attr_def)

lemma preparedRecord_cases:
  obtains a where "preparedRecord target body ts attrs = Inr
      \<lparr>Body = body, Timestamp = ts, ObservedTimestamp = zero_time,
       SeverityText = fst (parseSeverity body), SeverityNumber = snd (parseSeverity body),
       Dropped = (fst (parseSeverity body) \<in> set (DropLevels target)),
       TraceID = extract_trace_id target body, RecAttributes = a,
       RecResourceAttributes = Some (case ResourceAttributes target of
           None \<Rightarrow> fallback_resource target | Some m \<Rightarrow> m),
       RecResourceKey = ResourceKey target\<rparr>"
    and "map_of (entries a) = map_of (entries attrs) ++ level_attr (fst (parseSeverity body))
           ++ extracted (Extractors target) body"
    and "nmap_ok attrs \<longrightarrow> nmap_ok a"
proof (cases "fst (parseSeverity body) = [] \<and> Extractors target = [] \<and> attrs = None")
  case True
  then show thesis
    by (intro that [of None])
       (auto simp: preparedRecord_def Let_def level_attr_def split: prod.split option.split)
next
  case False
  define m where "m = entries attrs"
  define t where "t = fst (parseSeverity body)"
  obtain m1 where m1:
    "(if t \<noteq> [] then nmap_set ''log.level'' t (Some m) else Inr (Some m)) = Inr (Some m1)"
    "map_of m1 = map_of m ++ level_attr t" "map_ok m \<longrightarrow> map_ok m1"
    using level_attr_step by blast
  obtain m2 where m2: "apply_extractors (Extractors target) body (Some m1) = Inr (Some m2)"
    "map_of m2 = map_of m1 ++ extracted (Extractors target) body" "map_ok m1 \<longrightarrow> map_ok m2"
    using apply_extractors_Some by blast
  have "(if (t \<noteq> [] \<or> Extractors target \<noteq> []) \<and> attrs = None then Some [] else attrs) = Some m"
    using False by (cases attrs) (auto simp: t_def m_def)
  then show thesis
    using m1 m2 by (intro that [of "Some m2"])
      (auto simp: preparedRecord_def Let_def t_def m_def nmap_ok_def split: prod.split option.split)
qed

section \<open>Properties\<close>

text \<open>With completion, a trace id that is not nil is 16 bytes, not all zero, and it is what
  the extracted text spells in hexadecimal after padding with zeros on the left, which
  happens for 16 digits only.\<close>

theorem traceID_completed:
  assumes "parseTraceID value True = bs" "bs \<noteq> []"
  shows "length bs = 16 \<and> list_ex (\<lambda>b. b \<noteq> CHR 0x00) bs \<and> length value \<in> {16, 32}
    \<and> hex_encode bs = map lower_char (replicate (32 - length value) CHR ''0'' @ value)"
  using parseTraceID_completed [OF assms] assms
  by (auto simp: parseTraceID_def Let_def split: if_splits)

theorem traceID_completed_witness:
  "length (parseTraceID ''00000000000000AB'' True) = 16
   \<and> hex_encode (parseTraceID ''00000000000000AB'' True) = map lower_char (replicate 16 CHR ''0'' @ ''00000000000000AB'')"
proof -
  have "parseTraceID ''00000000000000AB'' True \<noteq> []" by code_simp
  from traceID_completed [OF refl this] show ?thesis by simp
qed

text \<open>C35. CRI lines are taken apart without loss: \<open>parseCRI\<close> succeeds on a line exactly if it
  is a time stamp the layout accepts, a stream, a flag and a body, separated by single
  spaces, and it returns these parts; the body may contain spaces.\<close>

theorem parseCRI_inverts_format:
  assumes "\<And>ts t. parse_time ts = Some t \<Longrightarrow> CHR '' '' \<notin> set ts"
  shows "parseCRI parse_time line = Some (body, t, stream, flag) \<longleftrightarrow>
    (\<exists>ts. line = ts @ '' '' @ stream @ '' '' @ flag @ '' '' @ body \<and> parse_time ts = Some t
      \<and> stream \<in> {''stdout'', ''stderr''} \<and> flag \<in> {''P'', ''F''})"
  using parseCRI_Some [of parse_time line body t stream flag] parseCRI_line [of _ parse_time t stream flag body]
    assms by blast

theorem parseCRI_inverts_format_witness:
  "parseCRI (\<lambda>ts. if ts = ''T'' then Some 7 else None) ''T stdout F a b'' = Some (''a b'', 7, ''stdout'', ''F'')"
proof -
  let ?parse = "\<lambda>ts. if ts = ''T'' then Some 7 else None"
  have no: "\<And>ts t. ?parse ts = Some t \<Longrightarrow> CHR '' '' \<notin> set ts" by (auto split: if_splits)
  have "\<exists>ts. ''T stdout F a b'' = ts @ '' '' @ ''stdout'' @ '' '' @ ''F'' @ '' '' @ ''a b'' \<and> ?parse ts = Some 7"
    by (intro exI [of _ "''T''"]) simp
  with parseCRI_inverts_format [of ?parse "''T stdout F a b''" "''a b''" 7 "''stdout''" "''F''", OF no]
  show ?thesis by simp
qed

text \<open>C34. Building a record never panics and never loses an attribute: it always succeeds, its
  attributes are those of the caller, overridden by \<open>log.level\<close> when a severity was found,
  overridden by the extracted ones, of which a later extractor wins; the record is dropped
  exactly if its severity is among the levels of the target.\<close>

theorem preparedRecord_fields:
  "\<exists>r. preparedRecord target body ts attrs = Inr r \<and> Body r = body \<and> Timestamp r = ts
     \<and> (SeverityText r, SeverityNumber r) = parseSeverity body
     \<and> (Dropped r \<longleftrightarrow> SeverityText r \<in> set (DropLevels target))
     \<and> map_of (entries (RecAttributes r)) = map_of (entries attrs) ++ level_attr (SeverityText r)
         ++ extracted (Extractors target) body
     \<and> (nmap_ok attrs \<longrightarrow> nmap_ok (RecAttributes r))"
  by (rule preparedRecord_cases [of target body ts attrs]) (auto intro!: exI)

theorem preparedRecord_fields_witness:
  "\<exists>r. preparedRecord \<lparr>Path = ''/a'', ReportedPath = [], SourceType = ''file'', Rule = ''r'',
       StartAt = [], Format = [], Multiline = \<lparr>StartPattern = [], FlushAfter = 0\<rparr>, Attributes = None,
       Extractors = [], TraceIDExtractor = None, TraceIDCompletion = False, DropLevels = [],
       ResourceAttributes = None, ResourceKey = []\<rparr> ''x'' 5 (Some [(''k'', ''v'')]) = Inr r
     \<and> Body r = ''x'' \<and> nmap_ok (RecAttributes r)"
  using preparedRecord_fields [of "\<lparr>Path = ''/a'', ReportedPath = [], SourceType = ''file'', Rule = ''r'',
       StartAt = [], Format = [], Multiline = \<lparr>StartPattern = [], FlushAfter = 0\<rparr>, Attributes = None,
       Extractors = [], TraceIDExtractor = None, TraceIDCompletion = False, DropLevels = [],
       ResourceAttributes = None, ResourceKey = []\<rparr>" "''x''" 5 "Some [(''k'', ''v'')]"]
  by auto

end
