(* ===== verification/StateStore.thy ===== *)
theory StateStore
  imports GoStrings
begin

text \<open>
  The position table of \<open>internal/state/store.go\<close>: lookups, updates, clean-up and the
  save protocol.  A save is two critical sections with file operations between them, so it
  is modelled as separate steps of a system in which updates may happen at any point; the
  generation counter is the 64-bit word of the code.  The JSON coding of the table is the
  pair \<open>marshal\<close>, \<open>unmarshal\<close>.
\<close>

section \<open>The table\<close>

record position =
  PosPath :: string
  Offset :: int
  UpdatedAt :: time

type_synonym positions = "(string \<times> position) list"

record store =
  st_path :: string
  st_positions :: positions
  st_dirty :: bool
  st_generation :: "64 word"

definition Get :: "store \<Rightarrow> string \<Rightarrow> position option" where
  "Get s key = map_of (st_positions s) key"

definition Set :: "string \<Rightarrow> position \<Rightarrow> store \<Rightarrow> store" where
  "Set key p s =
     (let changed = s\<lparr>st_positions := map_set key p (st_positions s), st_dirty := True,
                      st_generation := st_generation s + 1\<rparr>
      in case map_of (st_positions s) key of
           Some old \<Rightarrow> if Offset old = Offset p \<and> PosPath old = PosPath p then s else changed
         | None \<Rightarrow> changed)"

text \<open>\<open>strconv.FormatUint(v, 10)\<close>, \<open>strconv.Itoa\<close>, and the key of a file, \<open>device:inode\<close>.\<close>

fun format_uint :: "nat \<Rightarrow> string" where
  "format_uint n = (if n < 10 then [char_of (48 + n)]
     else format_uint (n div 10) @ [char_of (48 + n mod 10)])"

declare format_uint.simps [simp del]

definition format_int :: "int \<Rightarrow> string" where
  "format_int i = (if i < 0 then ''-'' else []) @ format_uint (nat \<bar>i\<bar>)"

type_synonym stat_t = "64 word \<times> 64 word"

definition identity_key :: "stat_t \<Rightarrow> string" where
  "identity_key st = format_uint (unat (fst st)) @ '':'' @ format_uint (unat (snd st))"

definition fileIdentity :: "stat_t option \<Rightarrow> string" where
  "fileIdentity info = (case info of None \<Rightarrow> [] | Some st \<Rightarrow> identity_key st)"

text \<open>\<open>Cleanup\<close> ranges over the table; \<open>stat\<close> is \<open>os.Stat\<close>, whose answer may lack the
  \<open>syscall.Stat_t\<close>.\<close>

definition cleanup_entry ::
    "time \<Rightarrow> (string \<Rightarrow> gerr + stat_t option) \<Rightarrow> store \<Rightarrow> string \<times> position \<Rightarrow> store" where
  "cleanup_entry olderThan stat s kp =
     (if UpdatedAt (snd kp) < olderThan then
        (let gone = s\<lparr>st_positions := AList.delete (fst kp) (st_positions s), st_dirty := True,
                      st_generation := st_generation s + 1\<rparr>
         in case stat (PosPath (snd kp)) of
              Inr info \<Rightarrow> if fileIdentity info = fst kp then s else gone
            | Inl err \<Rightarrow> gone)
      else s)"

definition Cleanup :: "time \<Rightarrow> (string \<Rightarrow> gerr + stat_t option) \<Rightarrow> store \<Rightarrow> store" where
  "Cleanup olderThan stat s = foldl (cleanup_entry olderThan stat) s (st_positions s)"

text \<open>\<open>Load\<close>: a missing file (\<open>None\<close>) is a first start, and so is an empty one.  The JSON
  text \<open>null\<close> decodes without an error and leaves the map nil (\<open>unmarshal\<close> gives \<open>None\<close>);
  such a store answers lookups, but the first \<open>Set\<close> writes to a nil map, which is a run-time
  panic.  Every other operation of the model is on a store with a map.\<close>

datatype loaded_store = NilStore string | LoadedStore store

definition Load ::
    "(string \<Rightarrow> gerr + positions option) \<Rightarrow> string \<Rightarrow> gerr + string option \<Rightarrow> gerr + loaded_store" where
  "Load unmarshal path contents =
     (let s = \<lparr>st_path = path, st_positions = [], st_dirty = False, st_generation = 0\<rparr> in
      case contents of
        Inl err \<Rightarrow> Inl err
      | Inr None \<Rightarrow> Inr (LoadedStore s)
      | Inr (Some b) \<Rightarrow>
          if b \<noteq> [] then
            (case unmarshal b of
               Inl err \<Rightarrow> Inl err
             | Inr None \<Rightarrow> Inr (NilStore path)
             | Inr (Some ps) \<Rightarrow> Inr (LoadedStore (s\<lparr>st_positions := ps\<rparr>)))
          else Inr (LoadedStore s))"

definition Get_loaded :: "loaded_store \<Rightarrow> string \<Rightarrow> position option" where
  "Get_loaded ls key = (case ls of NilStore path \<Rightarrow> None | LoadedStore s \<Rightarrow> Get s key)"

definition Set_loaded :: "string \<Rightarrow> position \<Rightarrow> loaded_store \<Rightarrow> gerr + loaded_store" where
  "Set_loaded key p ls =
     (case ls of
        NilStore path \<Rightarrow> Inl (Panic ''assignment to entry in nil map'')
      | LoadedStore s \<Rightarrow> Inr (LoadedStore (Set key p s)))"

lemma null_state_panics:
  assumes "unmarshal b = Inr None" "b \<noteq> []" "Load unmarshal path (Inr (Some b)) = Inr ls"
  shows "Get_loaded ls key = None" "\<exists>msg. Set_loaded key p ls = Inl (Panic msg)"
  using assms by (auto simp: Load_def Get_loaded_def Set_loaded_def)

section \<open>Saving\<close>

text \<open>The first critical section: nothing to do, or the encoded table and its generation.\<close>

definition save_begin ::
    "(positions \<Rightarrow> gerr + string) \<Rightarrow> bool \<Rightarrow> store \<Rightarrow> (gerr + string \<times> 64 word) option" where
  "save_begin marshal force s =
     (if \<not> force \<and> \<not> st_dirty s then None
      else Some (case marshal (st_positions s) of
                   Inl err \<Rightarrow> Inl err | Inr b \<Rightarrow> Inr (b, st_generation s)))"

text \<open>The last critical section.\<close>

definition save_commit :: "64 word \<Rightarrow> store \<Rightarrow> store" where
  "save_commit gen s = (if st_generation s = gen then s\<lparr>st_dirty := False\<rparr> else s)"

text \<open>The file operations between them.  A file is its contents and whether they are on the
  device (\<open>fsync\<close>); the disk has what the name of the state file leads to now, what it led to
  before the renames since the last reboot (the directory is never synced, so a crash of the
  system may undo them), and the temporary file.\<close>

record file_state =
  fl_bytes :: string
  fl_synced :: bool

record disk =
  dk_main :: "file_state option"
  dk_old :: "file_state option list"
  dk_temp :: "file_state option"

definition empty_disk :: disk where
  "empty_disk = \<lparr>dk_main = None, dk_old = [], dk_temp = None\<rparr>"

definition main_bytes :: "disk \<Rightarrow> string option" where
  "main_bytes d = map_option fl_bytes (dk_main d)"

text \<open>What the state file may be after a crash of the system: contents that were not synced
  may come back as anything.\<close>

definition crash_file :: "file_state option \<Rightarrow> string option \<Rightarrow> bool" where
  "crash_file f m \<longleftrightarrow> (case f of
     None \<Rightarrow> m = None
   | Some c \<Rightarrow> if fl_synced c then m = Some (fl_bytes c) else m \<noteq> None)"

definition crash_main :: "disk \<Rightarrow> string option \<Rightarrow> bool" where
  "crash_main d m \<longleftrightarrow> list_ex (\<lambda>f. crash_file f m) (dk_main d # dk_old d)"

datatype file_op = CreateTemp | WriteTemp string | SyncTemp | RenameTemp | RemoveTemp

fun do_op :: "file_op \<Rightarrow> disk \<Rightarrow> disk" where
  "do_op CreateTemp d = d\<lparr>dk_temp := Some \<lparr>fl_bytes = [], fl_synced = False\<rparr>\<rparr>"
| "do_op (WriteTemp s) d =
     d\<lparr>dk_temp := map_option (\<lambda>f. \<lparr>fl_bytes = fl_bytes f @ s, fl_synced = False\<rparr>) (dk_temp d)\<rparr>"
| "do_op SyncTemp d = d\<lparr>dk_temp := map_option (fl_synced_update (\<lambda>_. True)) (dk_temp d)\<rparr>"
| "do_op RenameTemp d = \<lparr>dk_main = dk_temp d, dk_old = dk_main d # dk_old d, dk_temp = None\<rparr>"
| "do_op RemoveTemp d = d\<lparr>dk_temp := None\<rparr>"

text \<open>The disk before and after each operation.\<close>

fun run_ops :: "file_op list \<Rightarrow> disk \<Rightarrow> disk list" where
  "run_ops [] d = [d]"
| "run_ops (op # ops) d = d # run_ops ops (do_op op d)"

record io_calls =
  io_mkdir :: "gerr option"
  io_create :: "gerr option"
  io_write :: "(gerr \<times> nat) option"  \<comment> \<open>an error after some bytes\<close>
  io_sync :: "gerr option"
  io_close :: "gerr option"
  io_rename :: "gerr option"

definition write_temp :: "io_calls \<Rightarrow> string \<Rightarrow> gerr option \<times> file_op list" where
  "write_temp io b =
     (case io_write io of
        Some (err, n) \<Rightarrow> (Some err, [WriteTemp (take n b)])
      | None \<Rightarrow>
          (case io_sync io of
             Some err \<Rightarrow> (Some err, [WriteTemp b])
           | None \<Rightarrow> (None, [WriteTemp b, SyncTemp])))"

text \<open>The error of a save and the operations it does; \<open>defer os.Remove\<close> is the last one on
  every path after the creation.\<close>

definition save_ops :: "io_calls \<Rightarrow> string \<Rightarrow> gerr option \<times> file_op list" where
  "save_ops io b =
     (case io_mkdir io of Some err \<Rightarrow> (Some err, [])
      | None \<Rightarrow>
     (case io_create io of Some err \<Rightarrow> (Some err, [])
      | None \<Rightarrow>
        (let (err, writes) = write_temp io b;
             err = (case err of None \<Rightarrow> io_close io | Some e \<Rightarrow> Some e)
         in case err of
              Some e \<Rightarrow> (Some e, CreateTemp # writes @ [RemoveTemp])
            | None \<Rightarrow>
                (case io_rename io of
                   Some e \<Rightarrow> (Some e, CreateTemp # writes @ [RemoveTemp])
                 | None \<Rightarrow> (None, CreateTemp # writes @ [RenameTemp, RemoveTemp])))))"

definition save_files :: "io_calls \<Rightarrow> string \<Rightarrow> disk \<Rightarrow> gerr option \<times> disk list" where
  "save_files io b d = (case save_ops io b of (err, ops) \<Rightarrow> (err, run_ops ops d))"

text \<open>A whole save with no update in between.\<close>

definition save :: "(positions \<Rightarrow> gerr + string) \<Rightarrow> io_calls \<Rightarrow> bool \<Rightarrow> store \<times> disk \<Rightarrow>
    gerr option \<times> store \<times> disk" where
  "save marshal io force sd =
     (case save_begin marshal force (fst sd) of
        None \<Rightarrow> (None, sd)
      | Some (Inl err) \<Rightarrow> (Some err, sd)
      | Some (Inr (b, gen)) \<Rightarrow>
          (case save_files io b (snd sd) of
             (Some err, ds) \<Rightarrow> (Some err, fst sd, last ds)
           | (None, ds) \<Rightarrow> (None, save_commit gen (fst sd), last ds)))"

definition SaveIfDirty where "SaveIfDirty marshal io = save marshal io False"
definition Save where "Save marshal io = save marshal io True"

section \<open>Interface: a store of read offsets\<close>

text \<open>What the tailer relies on: a position written is the position read, as far as its path
  and offset go (the code keeps the older time stamp when neither changes), and writing one
  key leaves the others alone.\<close>

definition place :: "position \<Rightarrow> string \<times> int" where
  "place p = (PosPath p, Offset p)"

locale offset_store =
  fixes get :: "'s \<Rightarrow> string \<Rightarrow> position option"
    and set_pos :: "string \<Rightarrow> position \<Rightarrow> 's \<Rightarrow> 's"
  assumes get_same: "map_option place (get (set_pos k p s) k) = Some (place p)"
    and get_other: "j \<noteq> k \<Longrightarrow> get (set_pos k p s) j = get s j"
begin

lemma get_all:
  "map_option place (get (foldl (\<lambda>s (k, p). set_pos k p s) s kps) k) =
     (case map_of (rev kps) k of
        Some p \<Rightarrow> Some (place p) | None \<Rightarrow> map_option place (get s k))"
proof (induction kps arbitrary: s rule: rev_induct)
  case (snoc x kps)
  obtain j p where "x = (j, p)" by (cases x)
  with snoc show ?case by (cases "k = j") (simp_all add: get_same get_other)
qed simp

end

lemma Get_Set_same: "map_option place (Get (Set k p s) k) = Some (place p)"
  by (auto simp: Get_def Set_def place_def Let_def split: option.split)

lemma Get_Set_other: "j \<noteq> k \<Longrightarrow> Get (Set k p s) j = Get s j"
  by (simp add: Get_def Set_def Let_def split: option.split)

interpretation table: offset_store Get Set
  by unfold_locales (simp_all add: Get_Set_same Get_Set_other)

section \<open>Keys of files\<close>

lemma format_uint_nonempty: "format_uint n \<noteq> []"
  by (subst format_uint.simps) simp

lemma format_uint_digits: "c \<in> set (format_uint n) \<Longrightarrow> 48 \<le> byte c \<and> byte c \<le> 57"
proof (induction n rule: format_uint.induct)
  case (1 n)
  then show ?case
    by (cases "n < 10") (auto simp: format_uint.simps [of n])
qed

lemma format_uint_small: "n < 10 \<Longrightarrow> format_uint n = [char_of (48 + n)]"
  by (subst format_uint.simps) simp

lemma format_uint_big: "\<not> n < 10 \<Longrightarrow> format_uint n = format_uint (n div 10) @ [char_of (48 + n mod 10)]"
  by (subst format_uint.simps) simp

lemma format_uint_inj: "format_uint m = format_uint n \<Longrightarrow> m = n"
proof (induction m arbitrary: n rule: format_uint.induct)
  case (1 m)
  have dig: "char_of (48 + a) = (char_of (48 + b) :: char) \<Longrightarrow> a < 10 \<Longrightarrow> b < 10 \<Longrightarrow> a = b"
    for a b :: nat by simp
  consider "m < 10" "n < 10" | "m < 10" "\<not> n < 10" | "\<not> m < 10" "n < 10"
    | "\<not> m < 10" "\<not> n < 10" by blast
  then show ?case
  proof cases
    case 1
    with \<open>format_uint m = format_uint n\<close> show ?thesis
      by (simp add: format_uint_small)
  next
    case 2
    with \<open>format_uint m = format_uint n\<close> show ?thesis
      by (simp add: format_uint_small format_uint_big format_uint_nonempty
          format_uint_nonempty [THEN not_sym])
  next
    case 3
    with \<open>format_uint m = format_uint n\<close> show ?thesis
      by (simp add: format_uint_small format_uint_big format_uint_nonempty
          format_uint_nonempty [THEN not_sym])
  next
    case 4
    with 1(2) have "format_uint (m div 10) = format_uint (n div 10)"
      and d: "char_of (48 + m mod 10) = (char_of (48 + n mod 10) :: char)"
      by (simp_all only: format_uint_big append1_eq_conv not_False_eq_True)
    with 1(1) 4(1) have "m div 10 = n div 10" by simp
    moreover have "m mod 10 = n mod 10" using d by (rule dig) simp_all
    ultimately show ?thesis by (metis div_mult_mod_eq)
  qed
qed

text \<open>Different files have different keys.\<close>

lemma identity_key_inj: "identity_key a = identity_key b \<Longrightarrow> a = b"
proof -
  assume "identity_key a = identity_key b"
  moreover have "CHR '':'' \<notin> set (format_uint n)" for n using format_uint_digits by fastforce
  ultimately have "format_uint (unat (fst a)) = format_uint (unat (fst b))"
    "format_uint (unat (snd a)) = format_uint (unat (snd b))"
    by (simp_all add: identity_key_def append_first_eq)
  then show "a = b" by (metis format_uint_inj prod.collapse unsigned_word_eqI)
qed

lemma identity_key_nonempty: "identity_key st \<noteq> []"
  by (simp add: identity_key_def)

section \<open>Clean-up\<close>

definition stale :: "time \<Rightarrow> (string \<Rightarrow> gerr + stat_t option) \<Rightarrow> string \<times> position \<Rightarrow> bool" where
  "stale olderThan stat kp \<longleftrightarrow> UpdatedAt (snd kp) < olderThan \<and>
     (\<forall>info. stat (PosPath (snd kp)) = Inr info \<longrightarrow> fileIdentity info \<noteq> fst kp)"

lemma cleanup_entry_stale:
  "cleanup_entry olderThan stat s kp =
     (if stale olderThan stat kp
      then s\<lparr>st_positions := AList.delete (fst kp) (st_positions s), st_dirty := True,
             st_generation := st_generation s + 1\<rparr> else s)"
  by (auto simp: cleanup_entry_def stale_def Let_def split: sum.split)

lemma delete_filter: "AList.delete k xs = filter (\<lambda>kp. fst kp \<noteq> k) xs"
  by (induction xs) (auto simp: AList.delete_eq)

lemma cleanup_fold:
  "foldl (cleanup_entry olderThan stat) s kps =
     (let gone = filter (stale olderThan stat) kps
      in s\<lparr>st_positions := filter (\<lambda>kp. fst kp \<notin> fst ` set gone) (st_positions s),
           st_dirty := (st_dirty s \<or> gone \<noteq> []),
           st_generation := st_generation s + of_nat (length gone)\<rparr>)"
proof (induction kps arbitrary: s)
  case (Cons kp kps)
  then show ?case
    by (auto simp: cleanup_entry_stale Let_def delete_filter add.assoc
        intro!: store.equality filter_cong)
qed simp

lemma Cleanup_filter:
  assumes "map_ok (st_positions s)"
  shows "st_positions (Cleanup olderThan stat s) =
      filter (\<lambda>kp. \<not> stale olderThan stat kp) (st_positions s)"
proof -
  have "(fst kp \<notin> fst ` set (filter (stale olderThan stat) (st_positions s))) =
      (\<not> stale olderThan stat kp)" if kp: "kp \<in> set (st_positions s)" for kp
  proof -
    have only: "x = kp" if "x \<in> set (st_positions s)" "fst x = fst kp" for x
      using that kp assms unfolding map_ok_def by (metis eq_key_imp_eq_value prod.collapse)
    show ?thesis
    proof (cases "stale olderThan stat kp")
      case True
      with kp have "kp \<in> set (filter (stale olderThan stat) (st_positions s))" by simp
      with True show ?thesis by blast
    next
      case False
      have "fst kp \<notin> fst ` set (filter (stale olderThan stat) (st_positions s))"
      proof
        assume "fst kp \<in> fst ` set (filter (stale olderThan stat) (st_positions s))"
        then obtain x where x: "fst kp = fst x"
          "x \<in> set (filter (stale olderThan stat) (st_positions s))" by (rule imageE)
        then have "x \<in> set (st_positions s)" "stale olderThan stat x" by simp_all
        with only [of x] x(1) False show False by simp
      qed
      with False show ?thesis by simp
    qed
  qed
  then show ?thesis
    by (simp add: Cleanup_def cleanup_fold Let_def cong: filter_cong)
qed

lemma Cleanup_flags:
  "st_path (Cleanup olderThan stat s) = st_path s"
  "st_dirty (Cleanup olderThan stat s) \<longleftrightarrow>
     st_dirty s \<or> list_ex (stale olderThan stat) (st_positions s)"
  "st_generation (Cleanup olderThan stat s) =
     st_generation s + of_nat (length (filter (stale olderThan stat) (st_positions s)))"
  by (simp_all add: Cleanup_def cleanup_fold Let_def filter_empty_conv list_ex_iff)

lemma map_ok_filter: "map_ok m \<Longrightarrow> map_ok (filter P m)"
  unfolding map_ok_def by (metis distinct_map_filter)

lemma map_of_filter_ok:
  "map_ok m \<Longrightarrow> map_of (filter P m) k = (case map_of m k of
      None \<Rightarrow> None | Some v \<Rightarrow> if P (k, v) then Some v else None)"
proof (induction m)
  case (Cons x m)
  obtain j v where "x = (j, v)" by (cases x)
  with Cons show ?case
    by (auto split: option.split simp: map_of_eq_None_iff)
qed simp

section \<open>File operations\<close>

lemma run_ops_append:
  "set (run_ops (ops @ ops') d) = set (run_ops ops d) \<union> set (run_ops ops' (last (run_ops ops d)))"
  "last (run_ops (ops @ ops') d) = last (run_ops ops' (last (run_ops ops d)))"
proof -
  have ne: "run_ops ops d \<noteq> []" for ops d by (cases ops) simp_all
  show "set (run_ops (ops @ ops') d) = set (run_ops ops d) \<union> set (run_ops ops' (last (run_ops ops d)))"
  proof (induction ops arbitrary: d)
    case Nil
    show ?case by (cases ops') simp_all
  qed (simp add: ne)
  show "last (run_ops (ops @ ops') d) = last (run_ops ops' (last (run_ops ops d)))"
    by (induction ops arbitrary: d) (simp_all add: ne)
qed

text \<open>Operations on the temporary file leave the state file alone, now and after a crash.\<close>

lemma run_ops_temp:
  "RenameTemp \<notin> set ops \<Longrightarrow> d' \<in> set (run_ops ops d) \<Longrightarrow> dk_main d' = dk_main d \<and> dk_old d' = dk_old d"
proof (induction ops arbitrary: d)
  case (Cons op ops)
  have "dk_main (do_op op d) = dk_main d \<and> dk_old (do_op op d) = dk_old d"
    using Cons.prems(1) by (cases op) auto
  with Cons show ?case by auto
qed simp

lemma run_ops_last: "last (run_ops ops d) \<in> set (run_ops ops d)"
  by (rule last_in_set) (cases ops; simp)

lemma crash_main_same: "dk_main d' = dk_main d \<Longrightarrow> dk_old d' = dk_old d \<Longrightarrow> crash_main d' = crash_main d"
  by (simp add: fun_eq_iff crash_main_def)

text \<open>A save does nothing to the state file, or renames a temporary file that holds the whole
  table and is on the device.\<close>

lemma save_ops_cases:
  assumes "save_ops io b = (err, ops)"
  obtains (none) "ops = []" "err \<noteq> None"
  | (failed) ops' where "RenameTemp \<notin> set ops'" "ops = ops' @ [RemoveTemp]" "err \<noteq> None"
  | (renamed) "ops = [CreateTemp, WriteTemp b, SyncTemp] @ [RenameTemp, RemoveTemp]" "err = None"
proof -
  have "ops = [] \<and> err \<noteq> None \<or> (\<exists>ops'. RenameTemp \<notin> set ops' \<and> ops = ops' @ [RemoveTemp] \<and> err \<noteq> None)
      \<or> ops = [CreateTemp, WriteTemp b, SyncTemp] @ [RenameTemp, RemoveTemp] \<and> err = None"
  proof (cases "io_mkdir io = None \<and> io_create io = None")
    case True
    obtain werr writes where w: "write_temp io b = (werr, writes)" by fastforce
    then have noren: "RenameTemp \<notin> set writes"
      and full: "werr = None \<Longrightarrow> writes = [WriteTemp b, SyncTemp]"
      by (auto simp: write_temp_def split: option.splits prod.splits)
    have failed: "\<exists>ops'. RenameTemp \<notin> set ops' \<and> CreateTemp # writes @ [RemoveTemp] = ops' @ [RemoveTemp]"
      using noren by (intro exI [of _ "CreateTemp # writes"]) simp
    show ?thesis
      using assms True w full failed by (auto simp: save_ops_def Let_def split: option.splits)
  next
    case False
    then obtain e where "io_mkdir io = Some e \<or> io_mkdir io = None \<and> io_create io = Some e"
      by (cases "io_mkdir io"; cases "io_create io") blast+
    then have "save_ops io b = (Some e, [])" by (auto simp: save_ops_def)
    with assms show ?thesis by auto
  qed
  then show thesis by (elim disjE exE conjE) (rule that; assumption)+
qed

lemma save_files_states:
  assumes "save_files io b d = (err, ds)"
  shows "d' \<in> set ds \<Longrightarrow> main_bytes d' = main_bytes d \<or> main_bytes d' = Some b"
    and "d' \<in> set ds \<Longrightarrow> crash_main d' m \<Longrightarrow> crash_main d m \<or> m = Some b"
    and "main_bytes (last ds) = (if err = None then Some b else main_bytes d)"
    and "dk_temp d = None \<Longrightarrow> dk_temp (last ds) = None"
proof -
  obtain ops where ops: "save_ops io b = (err, ops)" and ds: "ds = run_ops ops d"
    using assms by (auto simp: save_files_def split: prod.splits)
  have quiet: "main_bytes d' = main_bytes d \<and> crash_main d' = crash_main d"
    if "RenameTemp \<notin> set ops" "d' \<in> set (run_ops ops d)" for d' ops
    using run_ops_temp [OF that] crash_main_same [of d' d] by (simp add: main_bytes_def)
  have all: "(\<forall>d' \<in> set ds. (main_bytes d' = main_bytes d \<or> main_bytes d' = Some b)
        \<and> (\<forall>m. crash_main d' m \<longrightarrow> crash_main d m \<or> m = Some b))
      \<and> main_bytes (last ds) = (if err = None then Some b else main_bytes d)
      \<and> (dk_temp d = None \<longrightarrow> dk_temp (last ds) = None)"
    using ops
  proof (cases rule: save_ops_cases)
    case none
    then have "ds = [d]" using ds by simp
    with none(2) show ?thesis by auto
  next
    case (failed ops')
    have "RenameTemp \<notin> set ops" using failed by simp
    with quiet [of ops] run_ops_last [of ops d] have
      "\<forall>d' \<in> set ds. main_bytes d' = main_bytes d \<and> crash_main d' = crash_main d"
      "main_bytes (last ds) = main_bytes d" by (auto simp: ds)
    moreover have "dk_temp (last ds) = None" by (simp add: ds failed(2) run_ops_append)
    ultimately show ?thesis using failed(3) by auto
  next
    case renamed
    let ?d3 = "last (run_ops [CreateTemp, WriteTemp b, SyncTemp] d)"
    let ?d4 = "\<lparr>dk_main = Some \<lparr>fl_bytes = b, fl_synced = True\<rparr>, dk_old = dk_main d # dk_old d, dk_temp = None\<rparr>"
    have "?d3 = d\<lparr>dk_temp := Some \<lparr>fl_bytes = b, fl_synced = True\<rparr>\<rparr>" by simp
    then have d3: "set (run_ops [RenameTemp, RemoveTemp] ?d3) = {?d3, ?d4}" "last (run_ops [RenameTemp, RemoveTemp] ?d3) = ?d4"
      by auto
    have "set ds = set (run_ops [CreateTemp, WriteTemp b, SyncTemp] d) \<union> {?d4}" and last: "last ds = ?d4"
      unfolding ds renamed(1) run_ops_append d3 by (auto intro: run_ops_last)
    then have "d' \<in> set ds \<Longrightarrow> main_bytes d' = main_bytes d \<and> crash_main d' = crash_main d \<or> d' = ?d4" for d'
      using quiet [of "[CreateTemp, WriteTemp b, SyncTemp]" d'] by auto
    moreover have "crash_main ?d4 m = (m = Some b \<or> crash_main d m)" "main_bytes ?d4 = Some b" for m
      by (simp_all add: crash_main_def main_bytes_def) (simp add: crash_file_def)
    ultimately have "d' \<in> set ds \<Longrightarrow> (main_bytes d' = main_bytes d \<or> main_bytes d' = Some b)
        \<and> (\<forall>m. crash_main d' m \<longrightarrow> crash_main d m \<or> m = Some b)" "main_bytes (last ds) = Some b" for d'
      using last by metis+
    moreover have "dk_temp (last ds) = None" by (simp add: last)
    ultimately show ?thesis using renamed(2) by simp
  qed
  from all show "d' \<in> set ds \<Longrightarrow> main_bytes d' = main_bytes d \<or> main_bytes d' = Some b"
    and "d' \<in> set ds \<Longrightarrow> crash_main d' m \<Longrightarrow> crash_main d m \<or> m = Some b"
    and "main_bytes (last ds) = (if err = None then Some b else main_bytes d)"
    and "dk_temp d = None \<Longrightarrow> dk_temp (last ds) = None" by auto
qed

section \<open>Properties\<close>

text \<open>C27. The position table is a map of read offsets: after any sequence of \<open>Set\<close> calls, a
  key has the path and the offset of its last \<open>Set\<close>, and a key that was not set is as it
  was.  The code skips the write when neither changes, which only keeps the older time.\<close>

theorem positions_last_write:
  "map_option place (Get (foldl (\<lambda>s (k, p). Set k p s) s kps) k) =
     (case map_of (rev kps) k of
        Some p \<Rightarrow> Some (place p) | None \<Rightarrow> map_option place (Get s k))"
  by (rule table.get_all)

text \<open>C12. Whatever file operation of a save fails, and at whatever operation a crash stops it,
  the state file is the old one or the whole new one.  This holds of a crash of the process, which
  leaves the files as they are, and of a crash of the system, which may undo a rename and may
  leave anything in a file that was not synced: such a crash leaves nothing that it could not
  have left before the save, but for the whole new table.  A save that ends leaves no temporary
  file, and the state file is the new one exactly if it succeeded.\<close>

theorem state_file_old_or_new:
  assumes "save_files io b d = (err, ds)" "dk_temp d = None"
  shows "(\<forall>d' \<in> set ds. main_bytes d' = main_bytes d \<or> main_bytes d' = Some b)
    \<and> (\<forall>d' \<in> set ds. \<forall>m. crash_main d' m \<longrightarrow> crash_main d m \<or> m = Some b)
    \<and> dk_temp (last ds) = None
    \<and> main_bytes (last ds) = (if err = None then Some b else main_bytes d)"
  using save_files_states [OF assms(1)] assms(2) by blast

definition example_disk :: disk where
  "example_disk = empty_disk\<lparr>dk_main := Some \<lparr>fl_bytes = ''old'', fl_synced = True\<rparr>\<rparr>"

definition good_io :: io_calls where
  "good_io = \<lparr>io_mkdir = None, io_create = None, io_write = None, io_sync = None, io_close = None, io_rename = None\<rparr>"

theorem state_file_old_or_new_witness:
  "main_bytes (last (snd (save_files (good_io\<lparr>io_write := Some (IOErr ''ENOSPC'', 1)\<rparr>) ''{}'' example_disk))) = Some ''old''
   \<and> crash_main (last (snd (save_files good_io ''{}'' example_disk))) (Some ''old'')
   \<and> \<not> crash_main (last (snd (save_files good_io ''{}'' example_disk))) (Some [])"
proof -
  let ?bad = "save_files (good_io\<lparr>io_write := Some (IOErr ''ENOSPC'', 1)\<rparr>) ''{}'' example_disk"
    and ?ok = "save_files good_io ''{}'' example_disk"
  have temp: "dk_temp example_disk = None" by (simp add: example_disk_def empty_disk_def)
  have "fst ?bad \<noteq> None" "main_bytes example_disk = Some ''old''"
    by (simp_all add: save_files_def save_ops_def write_temp_def good_io_def example_disk_def main_bytes_def)
  with state_file_old_or_new [OF prod.collapse [symmetric] temp, of "good_io\<lparr>io_write := Some (IOErr ''ENOSPC'', 1)\<rparr>" "''{}''"]
  have 1: "main_bytes (last (snd ?bad)) = Some ''old''" by simp
  have 2: "crash_main (last (snd ?ok)) (Some ''old'')"
    by (simp add: save_files_def save_ops_def write_temp_def good_io_def example_disk_def empty_disk_def
        crash_main_def crash_file_def)
  have "last (snd ?ok) \<in> set (snd ?ok)" "\<not> crash_main example_disk (Some [])"
    by (simp_all add: save_files_def save_ops_def write_temp_def good_io_def example_disk_def empty_disk_def
        crash_main_def crash_file_def)
  with state_file_old_or_new [OF prod.collapse [symmetric] temp, of good_io "''{}''"]
  have 3: "\<not> crash_main (last (snd ?ok)) (Some [])" by blast
  from 1 2 3 show ?thesis by blast
qed

text \<open>C28. \<open>Cleanup\<close> removes exactly the entries that are older than the limit and whose
  path no longer leads to the same file; the others keep their position, and the table is
  marked as changed exactly if an entry was removed.\<close>

theorem cleanup_keeps_live:
  assumes "map_ok (st_positions s)"
  shows "Get (Cleanup olderThan stat s) k =
      (case Get s k of
         None \<Rightarrow> None
       | Some p \<Rightarrow> if UpdatedAt p < olderThan \<and>
             (\<forall>info. stat (PosPath p) = Inr info \<longrightarrow> fileIdentity info \<noteq> k)
           then None else Some p)
    \<and> (st_dirty (Cleanup olderThan stat s) \<longleftrightarrow>
        st_dirty s \<or> (\<exists>k p. Get s k = Some p \<and> stale olderThan stat (k, p)))"
proof -
  have "(\<exists>k p. Get s k = Some p \<and> stale olderThan stat (k, p)) \<longleftrightarrow>
      list_ex (stale olderThan stat) (st_positions s)"
    using assms unfolding Get_def map_ok_def list_ex_iff
    by (metis map_of_SomeD map_of_is_SomeI prod.collapse)
  then show ?thesis
    using assms
    by (auto simp: Get_def Cleanup_filter Cleanup_flags map_of_filter_ok stale_def split: option.split)
qed

theorem cleanup_keeps_live_witness:
  "Get (Cleanup 10 (\<lambda>p. Inr (Some (1, 2)))
      \<lparr>st_path = ''p'', st_positions = [(''1:2'', \<lparr>PosPath = ''a'', Offset = 7, UpdatedAt = 0\<rparr>)],
       st_dirty = False, st_generation = 0\<rparr>) ''1:3'' = None"
  using cleanup_keeps_live [of "\<lparr>st_path = ''p'', st_positions = [(''1:2'', \<lparr>PosPath = ''a'',
      Offset = 7, UpdatedAt = 0\<rparr>)], st_dirty = False, st_generation = 0\<rparr>" 10 "\<lambda>p. Inr (Some (1, 2))" "''1:3''"]
  by (simp add: Get_def)

text \<open>Two files have the same key only if device and inode are the same, and the key is
  never the empty string that stands for a file without identity.\<close>

theorem file_keys_unique:
  "(identity_key a = identity_key b \<longleftrightarrow> a = b) \<and> identity_key a \<noteq> fileIdentity None"
  using identity_key_inj [of a b] identity_key_nonempty [of a] by (auto simp: fileIdentity_def simp del: split_paired_All)

end
