(* ===== verification/GoPath.thy ===== *)
theory GoPath
  imports GoStrings
begin

text \<open>
  The functions of \<open>path/filepath\<close> on Unix that discovery calls: \<open>IsAbs\<close>,
  \<open>Clean\<close>, \<open>Join\<close>, \<open>Base\<close>, \<open>Dir\<close> and \<open>Ext\<close>, and \<open>strings.LastIndex\<close> of a byte.
\<close>

abbreviation slash :: char where "slash \<equiv> CHR ''/''"
abbreviation dot :: char where "dot \<equiv> CHR ''.''"

definition is_abs :: "string \<Rightarrow> bool" where
  "is_abs p = has_prefix p [slash]"

text \<open>One element of a path; the elements kept so far are in reverse order.\<close>

definition clean_step :: "bool \<Rightarrow> string list \<Rightarrow> string \<Rightarrow> string list" where
  "clean_step rooted out e =
     (if e = [] \<or> e = [dot] then out
      else if e = [dot, dot] then
        (if out \<noteq> [] \<and> hd out \<noteq> [dot, dot] then tl out
         else if rooted then out else e # out)
      else e # out)"

definition Clean :: "string \<Rightarrow> string" where
  "Clean p =
     (let out = rev (foldl (clean_step (is_abs p)) [] (split_all slash p)) in
      if is_abs p then slash # join [slash] out
      else if out = [] then [dot] else join [slash] out)"

text \<open>\<open>Join\<close> of elements the first of which is not empty.\<close>

definition Join_path :: "string list \<Rightarrow> string" where
  "Join_path ps = Clean (join [slash] ps)"

definition strip_slashes :: "string \<Rightarrow> string" where
  "strip_slashes p = rev (dropWhile (\<lambda>c. c = slash) (rev p))"

definition Base :: "string \<Rightarrow> string" where
  "Base p =
     (if p = [] then [dot]
      else let q = rev (takeWhile (\<lambda>c. c \<noteq> slash) (rev (strip_slashes p)))
           in if q = [] then [slash] else q)"

definition Ext :: "string \<Rightarrow> string" where
  "Ext p =
     (let e = rev (takeWhile (\<lambda>c. c \<noteq> slash) (rev p)) in
      if dot \<in> set e then dot # rev (takeWhile (\<lambda>c. c \<noteq> dot) (rev e)) else [])"

definition Dir :: "string \<Rightarrow> string" where
  "Dir p = Clean (rev (dropWhile (\<lambda>c. c \<noteq> slash) (rev p)))"

definition last_index :: "string \<Rightarrow> char \<Rightarrow> nat option" where
  "last_index s c =
     (if c \<in> set s then Some (length s - 1 - length (takeWhile (\<lambda>x. x \<noteq> c) (rev s))) else None)"

lemma takeWhile_sep: "c \<notin> set s \<Longrightarrow> takeWhile (\<lambda>x. x \<noteq> c) (s @ c # t) = s"
  by (induction s) auto

lemma dropWhile_sep: "c \<notin> set s \<Longrightarrow> dropWhile (\<lambda>x. x \<noteq> c) (s @ c # t) = c # t"
  by (induction s) auto

lemma last_index_append:
  assumes "c \<notin> set b" shows "last_index (a @ c # b) c = Some (length a)"
proof -
  have "takeWhile (\<lambda>x. x \<noteq> c) (rev b @ c # rev a) = rev b"
    using assms by (simp add: takeWhile_sep)
  then show ?thesis by (simp add: last_index_def)
qed

lemma Base_file:
  assumes "slash \<notin> set f" "f \<noteq> []"
  shows "Base (d @ slash # f) = f"
proof -
  have "last f \<noteq> slash" using assms last_in_set by metis
  then have "rev f \<noteq> []" "hd (rev f) \<noteq> slash" using assms by (simp_all add: hd_rev)
  then have "strip_slashes (d @ slash # f) = d @ slash # f"
    by (cases "rev f") (simp_all add: strip_slashes_def)
  moreover have "takeWhile (\<lambda>c. c \<noteq> slash) (rev f @ slash # rev d) = rev f"
    using assms(1) by (subst takeWhile_append2) auto
  ultimately show ?thesis using assms by (simp add: Base_def)
qed

lemma Ext_file:
  assumes "slash \<notin> set (f @ x)" "dot \<notin> set x"
  shows "Ext (d @ slash # f @ dot # x) = dot # x"
proof -
  have "takeWhile (\<lambda>c. c \<noteq> slash) (rev x @ dot # rev f @ slash # rev d) = rev x @ dot # rev f"
    using assms(1) takeWhile_append2 [of "rev x @ dot # rev f" "\<lambda>c. c \<noteq> slash" "slash # rev d"] by auto
  moreover have "takeWhile (\<lambda>c. c \<noteq> dot) (rev x @ dot # rev f) = rev x"
    using assms(2) takeWhile_append2 [of "rev x" "\<lambda>c. c \<noteq> dot" "dot # rev f"] by auto
  ultimately show ?thesis by (simp add: Ext_def)
qed

text \<open>A path of plain elements is clean.\<close>

definition plain_elem :: "string \<Rightarrow> bool" where
  "plain_elem e \<longleftrightarrow> e \<noteq> [] \<and> e \<noteq> [dot] \<and> e \<noteq> [dot, dot] \<and> slash \<notin> set e"

lemma clean_plain:
  "list_all plain_elem es \<Longrightarrow> foldl (clean_step rooted) out es = rev es @ out"
  by (induction es arbitrary: out) (simp_all add: clean_step_def plain_elem_def)

lemma Clean_rooted:
  assumes "list_all plain_elem es" "es \<noteq> []"
  shows "Clean (slash # join [slash] es) = slash # join [slash] es"
proof -
  have "split_all slash (join [slash] es) = es"
    using assms by (intro split_all_join) (auto simp: list_all_iff plain_elem_def)
  then have "split_all slash (slash # join [slash] es) = [] # es" by simp
  moreover have "foldl (clean_step True) [] ([] # es) = rev es"
    using clean_plain [OF assms(1), of True "[]"] by (simp add: clean_step_def)
  moreover have "is_abs (slash # join [slash] es)" by (simp add: is_abs_def has_prefix_def)
  ultimately show ?thesis by (simp add: Clean_def)
qed

end
