(* ===== verification/Discovery.thy ===== *)
theory Discovery
  imports Config Otlp Prepare StateStore GoPath
begin

text \<open>
  Discovery of log files, \<open>internal/discovery/discovery.go\<close>: rules are compiled once
  (\<open>New_discovery\<close>), and a round (\<open>Discover\<close>) turns the processes and the file patterns
  into targets, each path once, with its resource prepared.  The process list of gopsutil
  (\<open>proc\<close>), \<open>filepath.Glob\<close>, \<open>os.Stat\<close> and \<open>regexp.Compile\<close> are
  parameters; \<open>regular\<close> says that \<open>os.Stat\<close> finds a regular file.
\<close>

section \<open>Compiled rules\<close>

record compiled_process_rule =
  cp_rule :: process_rule
  cp_comm :: "regexp option"
  cp_cmdline :: "regexp option"
  cp_include :: regexp
  cp_exclude :: "regexp option"
  cp_extractors :: "attribute_extractor list"
  cp_traceID :: "regexp option"
  cp_dropLevels :: "string list"

record compiled_file_rule =
  cl_rule :: file_rule
  cl_extractors :: "attribute_extractor list"
  cl_traceID :: "regexp option"
  cl_dropLevels :: "string list"

record discovery =
  ds_processRules :: "compiled_process_rule list"
  ds_files :: "compiled_file_rule list"
  ds_containers :: "compiled_file_rule list"
  ds_cacheTTL :: duration
  ds_seen :: "(string \<times> time) list"

definition Compile :: "(string \<Rightarrow> regexp option) \<Rightarrow> string \<Rightarrow> gerr + regexp" where
  "Compile compile s =
     (case compile s of None \<Rightarrow> Inl (Errorf ''error parsing regexp'') | Some re \<Rightarrow> Inr re)"

definition optionalRegexp :: "(string \<Rightarrow> regexp option) \<Rightarrow> string \<Rightarrow> gerr + regexp option" where
  "optionalRegexp compile s =
     (if s = [] then Inr None
      else (case Compile compile s of Inl err \<Rightarrow> Inl err | Inr re \<Rightarrow> Inr (Some re)))"

definition compile_extractor ::
    "(string \<Rightarrow> regexp option) \<Rightarrow> attribute_extractor_config \<Rightarrow> gerr + attribute_extractor" where
  "compile_extractor compile x =
     (case Compile compile (ax_Pattern x) of
        Inl err \<Rightarrow> Inl (Wrap (''compile attribute extractor '' @ ax_Key x @ '': '') err)
      | Inr re \<Rightarrow> Inr \<lparr>ExtKey = ax_Key x, ExtPattern = re\<rparr>)"

definition compileExtractors ::
    "(string \<Rightarrow> regexp option) \<Rightarrow> attribute_extractor_config list \<Rightarrow> gerr + attribute_extractor list" where
  "compileExtractors compile xs = map_results (compile_extractor compile) xs"

text \<open>The keys of the set; no levels leave it nil, in which nothing is found either.\<close>

definition dropLevels :: "(rune \<Rightarrow> rune) \<Rightarrow> string list \<Rightarrow> string list" where
  "dropLevels uc levels = remdups (map (to_upper uc) levels)"

definition compile_process_rule :: "(string \<Rightarrow> regexp option) \<Rightarrow> (rune \<Rightarrow> rune) \<Rightarrow> process_rule \<Rightarrow>
    gerr + compiled_process_rule" where
  "compile_process_rule compile uc r =
     (case optionalRegexp compile (pr_CommRegex r) of Inl err \<Rightarrow> Inl err | Inr comm \<Rightarrow>
     (case optionalRegexp compile (pr_CmdlineRegex r) of Inl err \<Rightarrow> Inl err | Inr cmdline \<Rightarrow>
     (case Compile compile (pr_IncludeRegex r) of Inl err \<Rightarrow> Inl err | Inr include \<Rightarrow>
     (case optionalRegexp compile (pr_ExcludeRegex r) of Inl err \<Rightarrow> Inl err | Inr exclude \<Rightarrow>
     (case compileExtractors compile (pr_Extractors r) of Inl err \<Rightarrow> Inl err | Inr extractors \<Rightarrow>
     (case optionalRegexp compile (ti_Pattern (pr_TraceID r)) of Inl err \<Rightarrow> Inl err | Inr traceID \<Rightarrow>
        Inr \<lparr>cp_rule = r, cp_comm = comm, cp_cmdline = cmdline, cp_include = include,
             cp_exclude = exclude, cp_extractors = extractors, cp_traceID = traceID,
             cp_dropLevels = dropLevels uc (pr_DropLevels r)\<rparr>))))))"

definition compile_file_rule :: "(string \<Rightarrow> regexp option) \<Rightarrow> (rune \<Rightarrow> rune) \<Rightarrow> file_rule \<Rightarrow>
    gerr + compiled_file_rule" where
  "compile_file_rule compile uc r =
     (case compileExtractors compile (fr_Extractors r) of Inl err \<Rightarrow> Inl err | Inr extractors \<Rightarrow>
     (case optionalRegexp compile (ti_Pattern (fr_TraceID r)) of Inl err \<Rightarrow> Inl err | Inr traceID \<Rightarrow>
        Inr \<lparr>cl_rule = r, cl_extractors = extractors, cl_traceID = traceID,
             cl_dropLevels = dropLevels uc (fr_DropLevels r)\<rparr>))"

definition New_discovery :: "(string \<Rightarrow> regexp option) \<Rightarrow> (rune \<Rightarrow> rune) \<Rightarrow> sources_config \<Rightarrow> duration \<Rightarrow>
    gerr + discovery" where
  "New_discovery compile uc cfg cacheTTL =
     (case map_results (compile_process_rule compile uc) (sr_Processes cfg) of
        Inl err \<Rightarrow> Inl err
      | Inr ps \<Rightarrow>
     (case map_results (compile_file_rule compile uc) (sr_Files cfg) of
        Inl err \<Rightarrow> Inl err
      | Inr fs \<Rightarrow>
     (case map_results (compile_file_rule compile uc) (sr_Containers cfg) of
        Inl err \<Rightarrow> Inl err
      | Inr cs \<Rightarrow> Inr \<lparr>ds_processRules = ps, ds_files = fs, ds_containers = cs,
                         ds_cacheTTL = cacheTTL, ds_seen = []\<rparr>)))"

section \<open>Targets of a process\<close>

definition startAt :: "string \<Rightarrow> string" where
  "startAt v = (if v = [] then ''end'' else v)"

definition multiline_of :: "multiline_config \<Rightarrow> multiline" where
  "multiline_of v = \<lparr>StartPattern = ml_StartPattern v, FlushAfter = ml_FlushAfter v\<rparr>"

definition process_root_path :: "string \<Rightarrow> int \<Rightarrow> string \<Rightarrow> string" where
  "process_root_path procRoot pid openedPath =
     Join_path [procRoot, format_int pid, ''root'', trim_prefix openedPath [slash]]"

definition resolveProcessFile :: "(string \<Rightarrow> bool) \<Rightarrow> string \<Rightarrow> int \<Rightarrow> string \<Rightarrow> string option" where
  "resolveProcessFile regular procRoot pid openedPath =
     (if regular (process_root_path procRoot pid openedPath)
      then Some (process_root_path procRoot pid openedPath)
      else if regular openedPath then Some openedPath else None)"

record proc =
  ps_Pid :: int
  ps_Name :: "gerr + string"
  ps_Cmdline :: string
  ps_OpenFiles :: "gerr + string list"

definition opt_match :: "regexp option \<Rightarrow> string \<Rightarrow> bool" where
  "opt_match re s = (case re of None \<Rightarrow> True | Some r \<Rightarrow> match_string r s)"

text \<open>One open file under one rule: \<open>None\<close> where the loop continues with the next.\<close>

definition process_target :: "(string \<Rightarrow> bool) \<Rightarrow> int \<Rightarrow> string \<Rightarrow> string \<Rightarrow> compiled_process_rule \<Rightarrow>
    string \<Rightarrow> file_target option" where
  "process_target regular pid comm cmdline c opened =
     (let path = trim_suffix opened '' (deleted)'' in
      if \<not> is_abs path \<or> \<not> match_string (cp_include c) path
         \<or> (case cp_exclude c of None \<Rightarrow> False | Some re \<Rightarrow> match_string re path)
      then None
      else (case resolveProcessFile regular ''/proc'' pid path of
              None \<Rightarrow> None
            | Some sourcePath \<Rightarrow>
                let attrs = map_set ''process.pid'' (format_int pid) (copy_map (pr_Attributes (cp_rule c)));
                    attrs = map_set ''process.name'' comm attrs;
                    attrs = map_set ''process.command_line'' cmdline attrs
                in Some \<lparr>Path = sourcePath, ReportedPath = path, SourceType = ''process'',
                     Rule = pr_Name (cp_rule c), StartAt = startAt (pr_StartAt (cp_rule c)),
                     Format = [], Multiline = multiline_of (pr_Multiline (cp_rule c)),
                     Attributes = Some attrs, Extractors = cp_extractors c,
                     TraceIDExtractor = cp_traceID c,
                     TraceIDCompletion = ti_Completion (pr_TraceID (cp_rule c)),
                     DropLevels = cp_dropLevels c, ResourceAttributes = None, ResourceKey = []\<rparr>))"

fun rule_targets :: "(string \<Rightarrow> file_target option) \<Rightarrow> int \<Rightarrow> int \<Rightarrow> string list \<Rightarrow> file_target list" where
  "rule_targets f maxFiles found [] = []"
| "rule_targets f maxFiles found (opened # os) =
     (case f opened of
        None \<Rightarrow> rule_targets f maxFiles found os
      | Some t \<Rightarrow> t # (if 0 < maxFiles \<and> maxFiles \<le> found + 1 then []
                       else rule_targets f maxFiles (found + 1) os))"

definition discoverProcess :: "(string \<Rightarrow> bool) \<Rightarrow> discovery \<Rightarrow> proc \<Rightarrow> file_target list \<times> gerr option" where
  "discoverProcess regular d p =
     (case ps_Name p of
        Inl err \<Rightarrow> ([], None)
      | Inr comm \<Rightarrow>
          let nameMatched = filter (\<lambda>c. opt_match (cp_comm c) comm) (ds_processRules d);
              needsCmdline = list_ex (\<lambda>c. cp_cmdline c \<noteq> None) nameMatched
          in if nameMatched = [] then ([], None)
             else
               let cmdline = (if needsCmdline then ps_Cmdline p else []);
                   matched = filter (\<lambda>c. opt_match (cp_cmdline c) cmdline) nameMatched
               in if matched = [] then ([], None)
                  else (case ps_OpenFiles p of
                          Inl err \<Rightarrow> ([], None)
                        | Inr openFiles \<Rightarrow>
                            (concat (map (\<lambda>c. rule_targets (process_target regular (ps_Pid p) comm cmdline c)
                                (pr_MaxFiles (cp_rule c)) 0 openFiles) matched), None)))"

section \<open>Targets of a file rule\<close>

text \<open>The file name of a container log: \<open>pod_namespace_container-id.log\<close>.\<close>

definition addContainerAttributes :: "string \<Rightarrow> smap \<Rightarrow> smap" where
  "addContainerAttributes path attrs =
     (case split_n 3 CHR ''_'' (trim_suffix (Base path) (Ext path)) of
        [pod, ns, rest] \<Rightarrow>
          (let attrs = map_set ''k8s.pod.name'' pod attrs;
               attrs = map_set ''k8s.namespace.name'' ns attrs
           in (case last_index rest CHR ''-'' of
                 Some idx \<Rightarrow>
                   if 0 < idx then map_set ''container.id'' (drop (idx + 1) rest)
                        (map_set ''k8s.container.name'' (take idx rest) attrs)
                   else attrs
               | None \<Rightarrow> attrs))
      | _ \<Rightarrow> attrs)"

definition file_target_of :: "compiled_file_rule \<Rightarrow> string \<Rightarrow> string \<Rightarrow> file_target" where
  "file_target_of c sourceType path =
     (let attrs = copy_map (fr_Attributes (cl_rule c));
          attrs = (if sourceType = ''container'' then addContainerAttributes path attrs else attrs)
      in \<lparr>Path = path, ReportedPath = [], SourceType = sourceType, Rule = fr_Name (cl_rule c),
          StartAt = startAt (fr_StartAt (cl_rule c)), Format = fr_Format (cl_rule c),
          Multiline = multiline_of (fr_Multiline (cl_rule c)), Attributes = Some attrs,
          Extractors = cl_extractors c, TraceIDExtractor = cl_traceID c,
          TraceIDCompletion = ti_Completion (fr_TraceID (cl_rule c)),
          DropLevels = cl_dropLevels c, ResourceAttributes = None, ResourceKey = []\<rparr>)"

definition discoverFiles :: "(string \<Rightarrow> string list) \<Rightarrow> (string \<Rightarrow> bool) \<Rightarrow> compiled_file_rule \<Rightarrow> string \<Rightarrow>
    file_target list" where
  "discoverFiles glob regular c sourceType =
     (let excluded = concat (map glob (fr_Exclude (cl_rule c))) in
      map (file_target_of c sourceType)
        (filter (\<lambda>path. path \<notin> set excluded \<and> regular path)
          (concat (map glob (fr_Include (cl_rule c))))))"

section \<open>A round\<close>

definition reportedPath :: "file_target \<Rightarrow> string" where
  "reportedPath t = (if ReportedPath t \<noteq> [] then ReportedPath t else Path t)"

definition resource_key :: "smap \<Rightarrow> string" where
  "resource_key resource =
     concat (map (\<lambda>name. name @ [NUL] @ map_get resource name @ [NUL]) (sort (map fst resource)))"

definition prepareResource :: "file_target \<Rightarrow> file_target" where
  "prepareResource t =
     (let resource = map_set ''log.file.path'' (reportedPath t) (copy_map (Attributes t));
          resource = map_set ''log.source.type'' (SourceType t) resource;
          resource = map_set ''log.source.rule'' (Rule t) resource
      in t\<lparr>ResourceAttributes := Some resource, ResourceKey := resource_key resource\<rparr>)"

text \<open>The loop: \<open>cycle\<close> holds the paths of the round, \<open>seen\<close> the time each path was last
  seen.\<close>

fun dedup_loop :: "time \<Rightarrow> file_target list \<Rightarrow> string list \<Rightarrow> (string \<times> time) list \<Rightarrow>
    file_target list \<times> (string \<times> time) list" where
  "dedup_loop now [] cycle seen = ([], seen)"
| "dedup_loop now (t # ts) cycle seen =
     (if Path t \<in> set cycle then dedup_loop now ts cycle seen
      else (case dedup_loop now ts (Path t # cycle) (map_set (Path t) now seen) of
              (unique, seen') \<Rightarrow> (prepareResource t # unique, seen')))"

definition deduplicate :: "time \<Rightarrow> file_target list \<Rightarrow> discovery \<Rightarrow> file_target list \<times> discovery" where
  "deduplicate now targets d =
     (case dedup_loop now targets [] (ds_seen d) of
        (unique, seen) \<Rightarrow>
          (unique, d\<lparr>ds_seen := filter (\<lambda>(path, lastSeen). \<not> ds_cacheTTL d < now - lastSeen) seen\<rparr>))"

definition errorsJoin :: "gerr list \<Rightarrow> gerr option" where
  "errorsJoin errs = (if errs = [] then None else Some (Errorf (join ''; '' (map error_text errs))))"

text \<open>\<open>processes\<close> is the answer of \<open>ProcessesWithContext\<close>, which is asked only when there are
  process rules.\<close>

definition Discover :: "(string \<Rightarrow> string list) \<Rightarrow> (string \<Rightarrow> bool) \<Rightarrow> gerr option \<times> proc list \<Rightarrow> time \<Rightarrow>
    discovery \<Rightarrow> (file_target list \<times> gerr option) \<times> discovery" where
  "Discover glob regular processes now d =
     (let found = (if ds_processRules d = [] then [] else map (discoverProcess regular d) (snd processes));
          errs = (if ds_processRules d = [] then []
                  else (case fst processes of None \<Rightarrow> []
                        | Some err \<Rightarrow> [Wrap ''list processes: '' err])
                    @ concat (map (\<lambda>(ts, err). case err of None \<Rightarrow> [] | Some e \<Rightarrow> [e]) found));
          targets = concat (map fst found)
            @ concat (map (\<lambda>c. discoverFiles glob regular c ''file'') (ds_files d))
            @ concat (map (\<lambda>c. discoverFiles glob regular c ''container'') (ds_containers d))
      in (case deduplicate now targets d of (unique, d') \<Rightarrow> ((unique, errorsJoin errs), d')))"

end
