(* ===== verification/Targets.thy ===== *)
theory Targets
  imports Discovery
begin

text \<open>
  What discovery guarantees about its targets: with a valid configuration every rule compiles,
  and every target of a round can be read without a run-time panic, is listed once, and has
  the resource and the key the exporter computes.
\<close>

section \<open>Compiling the rules\<close>

lemma Compile_Inr: "Compile compile s = Inr re \<longleftrightarrow> compile s = Some re"
  by (auto simp: Compile_def split: option.split)

lemma optionalRegexp_good:
  "compiles compile s \<Longrightarrow> optionalRegexp compile s = Inr (if s = [] then None else compile s)"
  by (auto simp: optionalRegexp_def compiles_def Compile_def)

lemma optionalRegexp_Inr:
  "optionalRegexp compile s = Inr re \<Longrightarrow> re = (if s = [] then None else compile s)"
  by (auto simp: optionalRegexp_def Compile_def split: if_splits option.splits)

definition good_extractor :: "attribute_extractor \<Rightarrow> bool" where
  "good_extractor x \<longleftrightarrow> ExtKey x \<noteq> [] \<and> 0 < num_subexp (ExtPattern x)"

definition good_trace_re :: "regexp option \<Rightarrow> bool" where
  "good_trace_re re \<longleftrightarrow> (case re of None \<Rightarrow> True | Some r \<Rightarrow> 0 < num_subexp r)"

lemma compileExtractors_good:
  assumes "good_extractors compile xs"
  shows "compileExtractors compile xs =
    Inr (map (\<lambda>x. \<lparr>ExtKey = ax_Key x, ExtPattern = the (compile (ax_Pattern x))\<rparr>) xs)"
  unfolding compileExtractors_def
  using assms by (intro map_results_Inr)
    (auto simp: compile_extractor_def Compile_def good_extractors_def has_group_def split: option.splits)

lemma good_compiled_extractors:
  assumes "good_extractors compile xs"
  shows "list_all good_extractor
    (map (\<lambda>x. \<lparr>ExtKey = ax_Key x, ExtPattern = the (compile (ax_Pattern x))\<rparr>) xs)"
  using assms by (auto simp: good_extractors_def list_all_iff good_extractor_def has_group_def
      split: option.splits)

lemma good_trace:
  "p = [] \<or> has_group compile p \<Longrightarrow> compiles compile p \<and> good_trace_re (if p = [] then None else compile p)"
  by (auto simp: good_trace_re_def has_group_def compiles_def split: option.splits)

lemma dropLevels_good: "good_levels uc ls \<Longrightarrow> set (dropLevels uc ls) \<subseteq> set severity_levels"
  by (auto simp: dropLevels_def good_levels_def)

text \<open>Compiled rules of a valid configuration.\<close>

definition process_rule_ok :: "(string \<Rightarrow> regexp option) \<Rightarrow> (rune \<Rightarrow> rune) \<Rightarrow> compiled_process_rule \<Rightarrow> bool" where
  "process_rule_ok compile uc c \<longleftrightarrow> good_process_rule compile uc (cp_rule c)
     \<and> list_all good_extractor (cp_extractors c) \<and> good_trace_re (cp_traceID c)
     \<and> set (cp_dropLevels c) \<subseteq> set severity_levels"

definition file_rule_ok :: "(string \<Rightarrow> regexp option) \<Rightarrow> (rune \<Rightarrow> rune) \<Rightarrow> compiled_file_rule \<Rightarrow> bool" where
  "file_rule_ok compile uc c \<longleftrightarrow> good_file_rule compile uc (cl_rule c)
     \<and> list_all good_extractor (cl_extractors c) \<and> good_trace_re (cl_traceID c)
     \<and> set (cl_dropLevels c) \<subseteq> set severity_levels"

lemma compile_process_rule_good:
  assumes "good_process_rule compile uc r"
  shows "\<exists>c. compile_process_rule compile uc r = Inr c \<and> cp_rule c = r \<and> process_rule_ok compile uc c"
proof -
  have r: "compiles compile (pr_CommRegex r)" "compiles compile (pr_CmdlineRegex r)"
    "compiles compile (pr_IncludeRegex r)" "pr_IncludeRegex r \<noteq> []" "compiles compile (pr_ExcludeRegex r)"
    "good_extractors compile (pr_Extractors r)" "good_levels uc (pr_DropLevels r)"
    "ti_Pattern (pr_TraceID r) = [] \<or> has_group compile (ti_Pattern (pr_TraceID r))"
    using assms by (simp_all add: good_process_rule_def)
  obtain inc where "Compile compile (pr_IncludeRegex r) = Inr inc"
    using r(3,4) by (auto simp: compiles_def Compile_def)
  with r good_trace [OF r(8)] assms show ?thesis
    by (simp add: compile_process_rule_def optionalRegexp_good compileExtractors_good process_rule_ok_def
        good_compiled_extractors dropLevels_good)
qed

lemma compile_file_rule_good:
  assumes "good_file_rule compile uc r"
  shows "\<exists>c. compile_file_rule compile uc r = Inr c \<and> cl_rule c = r \<and> file_rule_ok compile uc c"
proof -
  have r: "good_extractors compile (fr_Extractors r)" "good_levels uc (fr_DropLevels r)"
    "ti_Pattern (fr_TraceID r) = [] \<or> has_group compile (ti_Pattern (fr_TraceID r))"
    using assms by (simp_all add: good_file_rule_def)
  with good_trace [OF r(3)] assms show ?thesis
    by (simp add: compile_file_rule_def optionalRegexp_good compileExtractors_good file_rule_ok_def
        good_compiled_extractors dropLevels_good)
qed

lemma map_results_good:
  assumes "list_all P xs" "\<And>x. P x \<Longrightarrow> \<exists>y. f x = Inr y \<and> g y = x \<and> Q y"
  shows "\<exists>ys. map_results f xs = Inr ys \<and> map g ys = xs \<and> list_all Q ys"
  using assms(1)
proof (induction xs)
  case (Cons x xs)
  then obtain ys where "map_results f xs = Inr ys" "map g ys = xs" "list_all Q ys" by auto
  moreover obtain y where "f x = Inr y" "g y = x" "Q y" using Cons.prems assms(2) by auto
  ultimately show ?case by (intro exI [of _ "y # ys"]) simp
qed simp

definition discovery_ok :: "(string \<Rightarrow> regexp option) \<Rightarrow> (rune \<Rightarrow> rune) \<Rightarrow> sources_config \<Rightarrow> discovery \<Rightarrow> bool" where
  "discovery_ok compile uc cfg d \<longleftrightarrow>
     map cp_rule (ds_processRules d) = sr_Processes cfg \<and> map cl_rule (ds_files d) = sr_Files cfg
     \<and> map cl_rule (ds_containers d) = sr_Containers cfg
     \<and> list_all (process_rule_ok compile uc) (ds_processRules d)
     \<and> list_all (file_rule_ok compile uc) (ds_files d @ ds_containers d)
     \<and> map_ok (ds_seen d)"

lemma New_discovery_good:
  assumes "list_all (good_process_rule compile uc) (sr_Processes cfg)"
    and "list_all (good_file_rule compile uc) (sr_Files cfg @ sr_Containers cfg)"
  shows "\<exists>d. New_discovery compile uc cfg ttl = Inr d \<and> discovery_ok compile uc cfg d
    \<and> ds_cacheTTL d = ttl \<and> ds_seen d = []"
proof -
  have fs: "list_all (good_file_rule compile uc) (sr_Files cfg)"
    "list_all (good_file_rule compile uc) (sr_Containers cfg)" using assms(2) by simp_all
  obtain ps where ps: "map_results (compile_process_rule compile uc) (sr_Processes cfg) = Inr ps"
    "map cp_rule ps = sr_Processes cfg" "list_all (process_rule_ok compile uc) ps"
    using map_results_good [OF assms(1) compile_process_rule_good] by blast
  obtain qs where qs: "map_results (compile_file_rule compile uc) (sr_Files cfg) = Inr qs"
    "map cl_rule qs = sr_Files cfg" "list_all (file_rule_ok compile uc) qs"
    using map_results_good [OF fs(1) compile_file_rule_good] by blast
  obtain cs where cs: "map_results (compile_file_rule compile uc) (sr_Containers cfg) = Inr cs"
    "map cl_rule cs = sr_Containers cfg" "list_all (file_rule_ok compile uc) cs"
    using map_results_good [OF fs(2) compile_file_rule_good] by blast
  show ?thesis using ps qs cs by (simp add: New_discovery_def discovery_ok_def)
qed

section \<open>The targets\<close>

text \<open>What the tailer needs of a target: a start pattern that compiles, a known start and format,
  extractors with a group; and the resource with its key, for the exporter.\<close>

definition readable_target :: "(string \<Rightarrow> regexp option) \<Rightarrow> file_target \<Rightarrow> bool" where
  "readable_target compile t \<longleftrightarrow> compiles compile (StartPattern (Multiline t))
     \<and> StartAt t \<in> {''beginning'', ''end''} \<and> Format t \<in> {[], ''cri''}
     \<and> list_all good_extractor (Extractors t) \<and> good_trace_re (TraceIDExtractor t)
     \<and> set (DropLevels t) \<subseteq> set severity_levels"

definition prepared_target :: "file_target \<Rightarrow> bool" where
  "prepared_target t \<longleftrightarrow>
     (case ResourceAttributes t of None \<Rightarrow> False
      | Some ra \<Rightarrow> map_ok ra \<and> ResourceKey t = attributeKey (Some ra)
          \<and> map_get ra ''log.file.path'' = reportedPath t
          \<and> map_get ra ''log.source.type'' = SourceType t
          \<and> map_get ra ''log.source.rule'' = Rule t)"

lemma copy_map_ok [simp]: "map_ok (copy_map m)"
proof -
  have "map_ok r \<Longrightarrow> map_ok (foldl (\<lambda>r (k, v). map_set k v r) r kvs)" for r and kvs :: smap
    by (induction kvs arbitrary: r) auto
  then show ?thesis by (simp add: copy_map_def)
qed

lemma copy_map_get: "nmap_ok m \<Longrightarrow> map_of (copy_map m) = map_of (entries m)"
proof -
  have "map_ok kvs \<Longrightarrow> map_of (foldl (\<lambda>r (k, v). map_set k v r) r kvs) = map_of r ++ map_of kvs"
    for r and kvs :: smap
  proof (induction kvs arbitrary: r)
    case (Cons kv kvs)
    obtain k v where kv: "kv = (k, v)" by (cases kv)
    with Cons.prems have "map_of kvs k = None" by (simp add: map_of_eq_None_iff)
    with Cons kv show ?case by (auto simp: map_add_def fun_eq_iff split: option.split)
  qed simp
  then show "nmap_ok m \<Longrightarrow> ?thesis" by (simp add: copy_map_def nmap_ok_def)
qed

lemma resource_key_eq: "resource_key m = attributeKey (Some m)"
  by (simp add: resource_key_def attributeKey_def)

lemma prepareResource_prepared [simp]: "prepared_target (prepareResource t)"
  by (simp add: prepared_target_def prepareResource_def resource_key_eq reportedPath_def Let_def)

lemma prepareResource_fields [simp]:
  "Path (prepareResource t) = Path t"
  "readable_target compile (prepareResource t) = readable_target compile t"
  by (simp_all add: prepareResource_def readable_target_def Let_def)

lemma process_target_Some:
  assumes "process_target regular pid comm cmdline c opened = Some t"
  shows "\<exists>path. path = trim_suffix opened '' (deleted)'' \<and> ReportedPath t = path \<and> is_abs path
    \<and> match_string (cp_include c) path
    \<and> (case cp_exclude c of None \<Rightarrow> True | Some re \<Rightarrow> \<not> match_string re path)
    \<and> regular (Path t) \<and> Path t \<in> {process_root_path ''/proc'' pid path, path}
    \<and> SourceType t = ''process'' \<and> Rule t = pr_Name (cp_rule c)
    \<and> map_get (entries (Attributes t)) ''process.name'' = comm"
  using assms
  by (auto simp: process_target_def Let_def resolveProcessFile_def split: if_splits option.splits)

lemma startAt_good: "v \<in> {[], ''beginning'', ''end''} \<Longrightarrow> startAt v \<in> {''beginning'', ''end''}"
  by (auto simp: startAt_def)

lemma process_target_fields:
  "process_target regular pid comm cmdline c opened = Some t \<Longrightarrow>
     StartAt t = startAt (pr_StartAt (cp_rule c)) \<and> Format t = []
     \<and> StartPattern (Multiline t) = ml_StartPattern (pr_Multiline (cp_rule c))
     \<and> Extractors t = cp_extractors c \<and> TraceIDExtractor t = cp_traceID c
     \<and> DropLevels t = cp_dropLevels c"
  by (auto simp: process_target_def Let_def multiline_of_def split: if_splits option.splits)

lemma process_target_readable:
  assumes "process_target regular pid comm cmdline c opened = Some t" "process_rule_ok compile uc c"
  shows "readable_target compile t"
proof -
  have "startAt (pr_StartAt (cp_rule c)) \<in> {''beginning'', ''end''}"
    using assms(2) by (intro startAt_good) (simp add: process_rule_ok_def good_process_rule_def)
  with process_target_fields [OF assms(1)] assms(2) show ?thesis
    unfolding readable_target_def process_rule_ok_def good_process_rule_def by simp
qed

lemma file_target_readable:
  assumes "file_rule_ok compile uc c"
  shows "readable_target compile (file_target_of c sourceType path)"
  using assms startAt_good [of "fr_StartAt (cl_rule c)"]
  by (simp add: file_target_of_def Let_def readable_target_def file_rule_ok_def multiline_of_def
      good_file_rule_def del: insert_iff)

text \<open>The loop over the open files takes the first \<open>max_files\<close> that fit.\<close>

definition up_to :: "int \<Rightarrow> 'a list \<Rightarrow> 'a list" where
  "up_to m xs = (if 0 < m then take (nat m) xs else xs)"

lemma rule_targets_take:
  "0 \<le> n \<Longrightarrow> m \<le> 0 \<or> n < m \<Longrightarrow>
     rule_targets f m n os = up_to (if 0 < m then m - n else 0) (List.map_filter f os)"
proof (induction f m n os rule: rule_targets.induct)
  case (2 f m n opened os)
  show ?case
  proof (cases "f opened")
    case None
    with 2 show ?thesis by (simp add: List.map_filter_simps)
  next
    case (Some t)
    show ?thesis
    proof (cases "0 < m \<and> m \<le> n + 1")
      case True
      with 2(4) have "nat (m - n) = 1" "n < m" by linarith+
      with True Some show ?thesis by (simp add: List.map_filter_simps up_to_def)
    next
      case False
      then have "nat (m - n) = Suc (nat (m - (n + 1)))" if "0 < m" using that 2(3,4) by linarith
      with False 2 Some show ?thesis by (auto simp: List.map_filter_simps up_to_def)
    qed
  qed
qed (simp add: List.map_filter_simps up_to_def)

section \<open>A round\<close>

lemma dedup_loop_spec:
  "dedup_loop now ts cycle seen = (us, seen') \<Longrightarrow>
     distinct (map Path us) \<and> Path ` set us = Path ` set ts - set cycle
     \<and> (\<forall>u \<in> set us. \<exists>t \<in> set ts. u = prepareResource t)
     \<and> (\<forall>p. p \<notin> set cycle \<longrightarrow> find (\<lambda>u. Path u = p) us =
          map_option prepareResource (find (\<lambda>t. Path t = p) ts))
     \<and> (\<forall>p. map_of seen' p = (if p \<in> Path ` set us then Some now else map_of seen p))
     \<and> (map_ok seen \<longrightarrow> map_ok seen')"
proof (induction now ts cycle seen arbitrary: us seen' rule: dedup_loop.induct)
  case (2 now t ts cycle seen)
  show ?case
  proof (cases "Path t \<in> set cycle")
    case True
    with 2(1,3) show ?thesis by auto
  next
    case False
    then obtain vs seen2 where r: "dedup_loop now ts (Path t # cycle) (map_set (Path t) now seen) = (vs, seen2)"
      by fastforce
    with 2(3) False have u: "us = prepareResource t # vs" "seen' = seen2" by simp_all
    note ih = 2(2) [OF False r]
    then have "Path t \<notin> Path ` set vs" by auto
    with ih False u show ?thesis by (auto simp: image_iff)
  qed
qed simp

lemma dedup_find_None: "find P xs = None \<longleftrightarrow> (\<forall>x \<in> set xs. \<not> P x)"
  by (induction xs) auto

text \<open>All candidates of a round, in the order of the code.\<close>

definition candidates :: "(string \<Rightarrow> string list) \<Rightarrow> (string \<Rightarrow> bool) \<Rightarrow> proc list \<Rightarrow> discovery \<Rightarrow>
    file_target list" where
  "candidates glob regular ps d =
     (if ds_processRules d = [] then [] else concat (map (\<lambda>p. fst (discoverProcess regular d p)) ps))
     @ concat (map (\<lambda>c. discoverFiles glob regular c ''file'') (ds_files d))
     @ concat (map (\<lambda>c. discoverFiles glob regular c ''container'') (ds_containers d))"

lemma Discover_candidates:
  "Discover glob regular processes now d =
     (case deduplicate now (candidates glob regular (snd processes) d) d of
        (us, d') \<Rightarrow> ((us, if ds_processRules d = [] then None
                          else (case fst processes of None \<Rightarrow> None
                                | Some err \<Rightarrow> Some (Errorf (''list processes: '' @ error_text err)))), d'))"
proof -
  have none: "snd (discoverProcess regular d p) = None" for p
    by (simp add: discoverProcess_def Let_def split: sum.split)
  have errs: "concat (map (\<lambda>(ts, err). case err of None \<Rightarrow> [] | Some e \<Rightarrow> [e])
      (map (discoverProcess regular d) ps)) = []" for ps
    by (induction ps) (simp_all add: case_prod_beta none)
  have fsts: "map fst (map (discoverProcess regular d) ps) = map (\<lambda>p. fst (discoverProcess regular d p)) ps" for ps
    by simp
  show ?thesis
    by (cases "ds_processRules d = []"; cases "fst processes")
       (simp_all only: Discover_def candidates_def errorsJoin_def Let_def if_True if_False option.case errs fsts,
        simp_all split: prod.split)
qed

lemma discoverProcess_targets:
  "fst (discoverProcess regular d p) =
     (case (ps_Name p, ps_OpenFiles p) of
        (Inr comm, Inr openFiles) \<Rightarrow>
          (let named = filter (\<lambda>c. opt_match (cp_comm c) comm) (ds_processRules d);
               cmdline = (if list_ex (\<lambda>c. cp_cmdline c \<noteq> None) named then ps_Cmdline p else [])
           in concat (map (\<lambda>c. up_to (pr_MaxFiles (cp_rule c))
                  (List.map_filter (process_target regular (ps_Pid p) comm cmdline c) openFiles))
                (filter (\<lambda>c. opt_match (cp_cmdline c) cmdline) named)))
      | _ \<Rightarrow> [])"
proof -
  have "rule_targets f m 0 os = up_to m (List.map_filter f os)" for f m os
    using rule_targets_take [of 0 m f os] by (auto simp: up_to_def)
  then show ?thesis
    by (simp add: discoverProcess_def Let_def split: sum.split)
qed

lemma discoverProcess_from:
  assumes "t \<in> set (fst (discoverProcess regular d p))"
  obtains c comm cmdline opened where "c \<in> set (ds_processRules d)" "ps_Name p = Inr comm"
    "opt_match (cp_comm c) comm" "opt_match (cp_cmdline c) cmdline"
    "process_target regular (ps_Pid p) comm cmdline c opened = Some t"
proof -
  obtain comm os where p: "ps_Name p = Inr comm" "ps_OpenFiles p = Inr os"
    using assms by (cases "ps_Name p"; cases "ps_OpenFiles p") (simp_all add: discoverProcess_targets)
  define named where "named = filter (\<lambda>c. opt_match (cp_comm c) comm) (ds_processRules d)"
  define cmdline where "cmdline = (if list_ex (\<lambda>c. cp_cmdline c \<noteq> None) named then ps_Cmdline p else [])"
  have "fst (discoverProcess regular d p) = concat (map (\<lambda>c. up_to (pr_MaxFiles (cp_rule c))
      (List.map_filter (process_target regular (ps_Pid p) comm cmdline c) os))
      (filter (\<lambda>c. opt_match (cp_cmdline c) cmdline) named))"
    by (simp only: discoverProcess_targets p Let_def prod.case sum.case named_def cmdline_def)
  with assms obtain c where c: "c \<in> set named" "opt_match (cp_cmdline c) cmdline"
    "t \<in> set (up_to (pr_MaxFiles (cp_rule c)) (List.map_filter (process_target regular (ps_Pid p) comm cmdline c) os))"
    by auto
  then have "t \<in> set (List.map_filter (process_target regular (ps_Pid p) comm cmdline c) os)"
    by (auto simp: up_to_def dest: in_set_takeD split: if_splits)
  then obtain opened where "process_target regular (ps_Pid p) comm cmdline c opened = Some t"
    by (auto simp: List.map_filter_def)
  with c p show thesis by (intro that [of c comm cmdline opened]) (auto simp: named_def)
qed

lemma discoverFiles_iff:
  "t \<in> set (discoverFiles glob regular c src) \<longleftrightarrow>
     (\<exists>path. t = file_target_of c src path \<and> regular path
        \<and> (\<exists>i \<in> set (fr_Include (cl_rule c)). path \<in> set (glob i))
        \<and> (\<forall>x \<in> set (fr_Exclude (cl_rule c)). path \<notin> set (glob x)))"
  by (auto simp: discoverFiles_def Let_def)

lemma candidates_readable:
  assumes "discovery_ok compile uc cfg d" "t \<in> set (candidates glob regular ps d)"
  shows "readable_target compile t"
proof -
  consider (proc) p where "p \<in> set ps" "t \<in> set (fst (discoverProcess regular d p))"
    | (glob) c src path where "c \<in> set (ds_files d @ ds_containers d)" "t = file_target_of c src path"
    using assms(2) by (auto simp: candidates_def discoverFiles_iff split: if_splits)
  then show ?thesis
  proof cases
    case proc
    then show ?thesis
      using assms(1) by (elim discoverProcess_from)
        (auto simp: discovery_ok_def list_all_iff intro: process_target_readable)
  next
    case glob
    then show ?thesis
      using assms(1) by (auto simp: discovery_ok_def list_all_iff intro: file_target_readable)
  qed
qed

lemma candidates_attributes:
  assumes "t \<in> set (candidates glob regular ps d)"
  shows "Attributes t \<noteq> None"
proof -
  consider (proc) p where "p \<in> set ps" "t \<in> set (fst (discoverProcess regular d p))"
    | (glob) c src path where "t = file_target_of c src path"
    using assms by (auto simp: candidates_def discoverFiles_iff split: if_splits)
  then show ?thesis
  proof cases
    case proc
    then show ?thesis
      by (elim discoverProcess_from) (auto simp: process_target_def Let_def split: if_splits option.splits)
  qed (simp add: file_target_of_def Let_def)
qed

lemma prepareResource_attributes [simp]: "Attributes (prepareResource t) = Attributes t"
  by (simp add: prepareResource_def Let_def)

lemma Discover_result:
  assumes "Discover glob regular processes now d = ((ts, err), d')"
  shows "\<exists>seen. dedup_loop now (candidates glob regular (snd processes) d) [] (ds_seen d) = (ts, seen)
    \<and> d' = d\<lparr>ds_seen := filter (\<lambda>(path, lastSeen). \<not> ds_cacheTTL d < now - lastSeen) seen\<rparr>"
  using assms by (auto simp: Discover_candidates deduplicate_def split: prod.splits)

lemma map_of_filter_value:
  "map_ok m \<Longrightarrow> map_of (filter (\<lambda>(k, v). P v) m) k = (case map_of m k of None \<Rightarrow> None
     | Some v \<Rightarrow> if P v then Some v else None)"
proof (induction m)
  case (Cons kv m)
  then show ?case
    by (cases kv) (auto simp: map_of_eq_None_iff split: option.split)
qed simp

lemma Discover_ok:
  assumes "Discover glob regular processes now d = ((ts, err), d')" "discovery_ok compile uc cfg d"
  shows "discovery_ok compile uc cfg d'"
proof -
  obtain seen where s: "dedup_loop now (candidates glob regular (snd processes) d) [] (ds_seen d) = (ts, seen)"
    "d' = d\<lparr>ds_seen := filter (\<lambda>(path, lastSeen). \<not> ds_cacheTTL d < now - lastSeen) seen\<rparr>"
    using Discover_result [OF assms(1)] by blast
  have "map_ok seen" using dedup_loop_spec [OF s(1)] assms(2) by (simp add: discovery_ok_def)
  with s(2) assms(2) show ?thesis by (simp add: discovery_ok_def map_ok_filter)
qed

section \<open>Properties\<close>

text \<open>C21. With a valid configuration \<open>New\<close> compiles every rule without an error, and in every
  later round (whatever the processes, the file system and the cache of seen paths) each target
  has a start pattern that compiles, a known \<open>start_at\<close> and format, extractors with a
  capture group, known drop levels, attribute and resource maps that are not nil, and the
  resource and key the exporter expects; and the next round starts from such a state again.\<close>

theorem targets_are_readable:
  assumes "good_config compile uc cfg" "New_discovery compile uc (cf_Sources cfg) ttl = res"
  shows "\<exists>d. res = Inr d \<and> discovery_ok compile uc (cf_Sources cfg) d
    \<and> (\<forall>e. discovery_ok compile uc (cf_Sources cfg) e \<longrightarrow>
        (case Discover glob regular processes now e of
           ((ts, err), e') \<Rightarrow> list_all (\<lambda>t. readable_target compile t \<and> Attributes t \<noteq> None
                \<and> ResourceAttributes t \<noteq> None \<and> prepared_target t) ts
             \<and> discovery_ok compile uc (cf_Sources cfg) e'))"
proof -
  have "list_all (\<lambda>t. readable_target compile t \<and> Attributes t \<noteq> None
        \<and> ResourceAttributes t \<noteq> None \<and> prepared_target t) ts
      \<and> discovery_ok compile uc (cf_Sources cfg) e'"
    if e: "discovery_ok compile uc (cf_Sources cfg) e"
      "Discover glob regular processes now e = ((ts, err), e')" for e ts err e'
  proof -
    obtain seen where s: "dedup_loop now (candidates glob regular (snd processes) e) [] (ds_seen e) = (ts, seen)"
      using Discover_result [OF e(2)] by blast
    have from_candidate: "\<forall>u \<in> set ts. \<exists>t \<in> set (candidates glob regular (snd processes) e). u = prepareResource t"
      using dedup_loop_spec [OF s] by blast
    have "readable_target compile u \<and> Attributes u \<noteq> None \<and> ResourceAttributes u \<noteq> None \<and> prepared_target u"
      if "u \<in> set ts" for u
    proof -
      obtain t where t: "t \<in> set (candidates glob regular (snd processes) e)" "u = prepareResource t"
        using from_candidate \<open>u \<in> set ts\<close> by blast
      have "prepared_target u" using t(2) by simp
      moreover from this have "ResourceAttributes u \<noteq> None"
        by (auto simp: prepared_target_def split: option.splits)
      moreover have "Attributes u \<noteq> None" using candidates_attributes [OF t(1)] t(2) by simp
      moreover have "readable_target compile u" using candidates_readable [OF e(1) t(1)] t(2) by simp
      ultimately show ?thesis by blast
    qed
    then show ?thesis using Discover_ok [OF e(2,1)] by (simp add: list_all_iff)
  qed
  then show ?thesis
    using assms New_discovery_good [of compile uc "cf_Sources cfg" ttl]
    by (auto simp: good_config_def)
qed

text \<open>C8. A round lists each path once, for the first rule that finds it, with its resource
  prepared: the resource has the reported path, the source and the rule, and the key is the one
  the exporter would compute from it.  The cache then holds the time of the round for every listed
  path, and of the others those seen within the time to live.\<close>

theorem Discover_lists_once:
  assumes "Discover glob regular processes now d = ((ts, err), d')" "map_ok (ds_seen d)" "0 \<le> ds_cacheTTL d"
  shows "distinct (map Path ts) \<and> list_all prepared_target ts
    \<and> (\<forall>p. find (\<lambda>u. Path u = p) ts = map_option prepareResource
          (find (\<lambda>t. Path t = p) (candidates glob regular (snd processes) d)))
    \<and> (\<forall>p. map_of (ds_seen d') p =
          (if p \<in> Path ` set ts then Some now
           else (case map_of (ds_seen d) p of None \<Rightarrow> None
                 | Some lastSeen \<Rightarrow> if now - lastSeen \<le> ds_cacheTTL d then Some lastSeen else None)))"
proof -
  obtain seen where s: "dedup_loop now (candidates glob regular (snd processes) d) [] (ds_seen d) = (ts, seen)"
    "d' = d\<lparr>ds_seen := filter (\<lambda>(path, lastSeen). \<not> ds_cacheTTL d < now - lastSeen) seen\<rparr>"
    using Discover_result [OF assms(1)] by blast
  note spec = dedup_loop_spec [OF s(1)]
  have "list_all prepared_target ts" using spec by (fastforce simp: list_all_iff)
  moreover have "map_of (ds_seen d') p = (if p \<in> Path ` set ts then Some now
       else (case map_of (ds_seen d) p of None \<Rightarrow> None
             | Some lastSeen \<Rightarrow> if now - lastSeen \<le> ds_cacheTTL d then Some lastSeen else None))" for p
    using spec assms(2,3) map_of_filter_value [of seen "\<lambda>t. \<not> ds_cacheTTL d < now - t" p]
    by (auto simp: s(2) split: option.split)
  ultimately show ?thesis using spec by simp
qed

text \<open>What a rule wants of a process and of a path the process has open, and the path it is read
  through.\<close>

definition wants_process :: "string \<Rightarrow> string \<Rightarrow> compiled_process_rule \<Rightarrow> bool" where
  "wants_process comm cmdline c \<longleftrightarrow>
     (case cp_comm c of None \<Rightarrow> True | Some re \<Rightarrow> match_string re comm)
     \<and> (case cp_cmdline c of None \<Rightarrow> True | Some re \<Rightarrow> match_string re cmdline)"

definition root_path :: "int \<Rightarrow> string \<Rightarrow> string" where
  "root_path pid path = Join_path [''/proc'', format_int pid, ''root'', trim_prefix path [slash]]"

definition wants_path :: "(string \<Rightarrow> bool) \<Rightarrow> int \<Rightarrow> compiled_process_rule \<Rightarrow> string \<Rightarrow> bool" where
  "wants_path regular pid c path \<longleftrightarrow> is_abs path \<and> match_string (cp_include c) path
     \<and> (case cp_exclude c of None \<Rightarrow> True | Some re \<Rightarrow> \<not> match_string re path)
     \<and> (regular (root_path pid path) \<or> regular path)"

definition target_view :: "file_target \<Rightarrow> string \<times> string \<times> string \<times> string" where
  "target_view t = (SourceType t, Rule t, ReportedPath t, Path t)"

lemma process_target_view:
  "map_option target_view (process_target regular pid comm cmdline c opened) =
     (let path = trim_suffix opened '' (deleted)''
      in if wants_path regular pid c path
         then Some (''process'', pr_Name (cp_rule c), path,
                if regular (root_path pid path) then root_path pid path else path)
         else None)"
  by (cases "cp_exclude c")
     (auto simp: process_target_def wants_path_def root_path_def process_root_path_def resolveProcessFile_def
        target_view_def Let_def)

lemma map_filter_view:
  "map v (List.map_filter f xs) = List.map_filter (\<lambda>x. map_option v (f x)) xs"
  by (induction xs) (auto simp: List.map_filter_simps split: option.split)

lemma map_filter_wants:
  "List.map_filter (\<lambda>x. let y = g x in if P y then Some (h y) else None) xs = map h (filter P (map g xs))"
  by (induction xs) (simp_all add: List.map_filter_simps Let_def)

lemma up_to_map: "map f (up_to m xs) = up_to m (map f xs)"
  by (simp add: up_to_def take_map)

text \<open>The command line is read only when a rule asks for it, which makes no difference to which
  rules match.\<close>

lemma matched_rules:
  assumes "named = filter (\<lambda>c. opt_match (cp_comm c) comm) cs"
    and "line = (if list_ex (\<lambda>c. cp_cmdline c \<noteq> None) named then cmdline else [])"
  shows "filter (\<lambda>c. opt_match (cp_cmdline c) line) named = filter (wants_process comm cmdline) cs"
proof -
  have "opt_match (cp_cmdline c) line = opt_match (cp_cmdline c) cmdline" if "c \<in> set named" for c
    using that assms(2) by (cases "cp_cmdline c") (auto simp: opt_match_def list_ex_iff)
  then have "filter (\<lambda>c. opt_match (cp_cmdline c) line) named = filter (\<lambda>c. opt_match (cp_cmdline c) cmdline) named"
    by (simp cong: filter_cong)
  then show ?thesis
    by (simp add: assms(1) wants_process_def opt_match_def conj_commute cong: filter_cong)
qed

lemma concat_view: "map v (concat (map f xs)) = concat (map (\<lambda>x. map v (f x)) xs)"
  by (simp add: map_concat o_def)

text \<open>C22. The targets of a file rule are, in order, the paths its include patterns give that no
  exclude pattern gives and that are regular files.  The targets of a process whose name and open
  files can be read are, rule by rule of those whose name and command-line patterns match, the
  first \<open>max_files\<close> of its open paths (without the mark of a deleted file) that are absolute,
  included, not excluded, and lead to a regular file, through the root of the process if it is
  there and else directly; each has the name of the rule and reports the path as the process
  sees it.\<close>

theorem selection_is_exact:
  "map Path (discoverFiles glob regular c src) =
     filter (\<lambda>path. path \<notin> set (concat (map glob (fr_Exclude (cl_rule c)))) \<and> regular path)
       (concat (map glob (fr_Include (cl_rule c))))
   \<and> map target_view (fst (discoverProcess regular d p)) =
     (case (ps_Name p, ps_OpenFiles p) of
        (Inr comm, Inr openFiles) \<Rightarrow>
          concat (map (\<lambda>c. up_to (pr_MaxFiles (cp_rule c))
              (map (\<lambda>path. (''process'', pr_Name (cp_rule c), path,
                    if regular (root_path (ps_Pid p) path) then root_path (ps_Pid p) path else path))
                (filter (wants_path regular (ps_Pid p) c) (map (\<lambda>opened. trim_suffix opened '' (deleted)'') openFiles))))
            (filter (wants_process comm (ps_Cmdline p)) (ds_processRules d)))
      | _ \<Rightarrow> [])"
proof -
  have "Path (file_target_of c src path) = path" for path by (simp add: file_target_of_def Let_def)
  then have files: "map Path (discoverFiles glob regular c src) =
      filter (\<lambda>path. path \<notin> set (concat (map glob (fr_Exclude (cl_rule c)))) \<and> regular path)
       (concat (map glob (fr_Include (cl_rule c))))"
    by (simp add: discoverFiles_def Let_def o_def)
  have one: "map target_view (up_to m (List.map_filter (process_target regular pid comm cmdline c) os)) =
      up_to m (map (\<lambda>path. (''process'', pr_Name (cp_rule c), path,
          if regular (root_path pid path) then root_path pid path else path))
        (filter (wants_path regular pid c) (map (\<lambda>opened. trim_suffix opened '' (deleted)'') os)))"
    for m pid comm cmdline c os
    by (simp only: up_to_map map_filter_view process_target_view map_filter_wants)
  show ?thesis
    by (cases "ps_Name p"; cases "ps_OpenFiles p")
       (simp_all only: files discoverProcess_targets prod.case sum.case Let_def matched_rules [OF refl refl]
          concat_view one list.map simp_thms)
qed

definition example_rule :: file_rule where
  "example_rule = \<lparr>fr_Name = ''r'', fr_Include = [''/l/*''], fr_Exclude = [''/l/b''],
     fr_StartAt = [], fr_Format = [], fr_Multiline = \<lparr>ml_StartPattern = [], ml_FlushAfter = 0\<rparr>,
     fr_Attributes = None, fr_Extractors = [], fr_TraceID = \<lparr>ti_Pattern = [], ti_Completion = False\<rparr>,
     fr_DropLevels = []\<rparr>"

definition example_sources :: config where
  "example_sources = defaults\<lparr>cf_Export := (cf_Export defaults)\<lparr>ex_Endpoint := ''e''\<rparr>,
     cf_Sources := \<lparr>sr_Processes = [], sr_Files = [example_rule], sr_Containers = []\<rparr>\<rparr>"

definition example_discovery :: discovery where
  "example_discovery = \<lparr>ds_processRules = [], ds_files = [\<lparr>cl_rule = example_rule, cl_extractors = [],
     cl_traceID = None, cl_dropLevels = []\<rparr>], ds_containers = [], ds_cacheTTL = 10, ds_seen = []\<rparr>"

definition example_glob :: "string \<Rightarrow> string list" where
  "example_glob p = (if p = ''/l/*'' then [''/l/a'', ''/l/b''] else [p])"

lemma example_good: "good_config (\<lambda>p. None) id example_sources"
  by (simp add: good_config_def example_sources_def defaults_def good_log_def good_export_def
      good_performance_def second_def minute_def hour_def good_file_rule_def example_rule_def
      compiles_def good_extractors_def good_levels_def)

lemma example_new: "New_discovery (\<lambda>p. None) id (cf_Sources example_sources) 10 = Inr example_discovery"
  by (simp add: New_discovery_def example_sources_def example_rule_def compile_file_rule_def
      compileExtractors_def optionalRegexp_def dropLevels_def example_discovery_def)

theorem targets_are_readable_witness:
  "list_all (\<lambda>t. readable_target (\<lambda>p. None) t \<and> Attributes t \<noteq> None)
     (fst (fst (Discover example_glob (\<lambda>p. True) (None, []) 5 example_discovery)))"
proof -
  let ?D = "Discover example_glob (\<lambda>p. True) (None, []) 5"
  obtain d where d: "Inr example_discovery = (Inr d :: gerr + discovery)"
    "discovery_ok (\<lambda>p. None) id (cf_Sources example_sources) d"
    "\<forall>e. discovery_ok (\<lambda>p. None) id (cf_Sources example_sources) e \<longrightarrow>
       (case ?D e of ((ts, err), e') \<Rightarrow> list_all (\<lambda>t. readable_target (\<lambda>p. None) t \<and> Attributes t \<noteq> None
                \<and> ResourceAttributes t \<noteq> None \<and> prepared_target t) ts
             \<and> discovery_ok (\<lambda>p. None) id (cf_Sources example_sources) e')"
    using targets_are_readable [OF example_good example_new,
        where glob = example_glob and regular = "\<lambda>p. True" and processes = "(None, [])" and now = 5]
    by (elim exE conjE) (rule that)
  have "discovery_ok (\<lambda>p. None) id (cf_Sources example_sources) example_discovery"
    using d(1,2) by simp
  then have "case ?D example_discovery of ((ts, err), e') \<Rightarrow> list_all (\<lambda>t. readable_target (\<lambda>p. None) t \<and> Attributes t \<noteq> None
                \<and> ResourceAttributes t \<noteq> None \<and> prepared_target t) ts
      \<and> discovery_ok (\<lambda>p. None) id (cf_Sources example_sources) e'" by (rule d(3) [rule_format])
  moreover obtain ts err e' where "?D example_discovery = ((ts, err), e')" by (metis surj_pair)
  ultimately show ?thesis by (auto elim: list.pred_mono_strong)
qed

theorem Discover_lists_once_witness:
  "distinct (map Path (fst (fst (Discover example_glob (\<lambda>p. True) (None, []) 5 example_discovery))))"
proof -
  let ?D = "Discover example_glob (\<lambda>p. True) (None, []) 5 example_discovery"
  have "?D = ((fst (fst ?D), snd (fst ?D)), snd ?D)" by simp
  from Discover_lists_once [OF this] show ?thesis by (simp add: example_discovery_def)
qed

text \<open>The name of a container log is taken apart without loss: from
  \<open>pod_namespace_container-id.log\<close>, in any directory, come exactly these four parts, also
  when the container name has underscores or dashes.\<close>

theorem container_name_parts:
  assumes "CHR ''_'' \<notin> set pod" "CHR ''_'' \<notin> set ns" "CHR ''-'' \<notin> set cid" "container \<noteq> []"
    and "slash \<notin> set (pod @ ns @ container @ cid @ ext)" "dot \<notin> set ext"
    and "m = addContainerAttributes
      (dir @ ''/'' @ pod @ ''_'' @ ns @ ''_'' @ container @ ''-'' @ cid @ ''.'' @ ext) attrs"
  shows "map_get m ''k8s.pod.name'' = pod \<and> map_get m ''k8s.namespace.name'' = ns
    \<and> map_get m ''k8s.container.name'' = container \<and> map_get m ''container.id'' = cid"
proof -
  define name where "name = pod @ ''_'' @ ns @ ''_'' @ container @ ''-'' @ cid"
  have "Base (dir @ slash # (name @ dot # ext)) = name @ dot # ext"
    using assms(5) by (intro Base_file) (auto simp: name_def)
  moreover have "Ext (dir @ slash # name @ dot # ext) = dot # ext"
    using assms(5,6) by (intro Ext_file) (auto simp: name_def)
  moreover have "trim_suffix (name @ dot # ext) (dot # ext) = name" by simp
  moreover have "split_n 3 CHR ''_'' name = [pod, ns, container @ CHR ''-'' # cid]"
    using assms(1,2) by (simp add: name_def numeral_3_eq_3 takeWhile_sep dropWhile_sep)
  ultimately show ?thesis
    using assms(3,4) by (simp add: assms(7) addContainerAttributes_def name_def last_index_append)
qed

theorem container_name_parts_witness:
  "map_get (addContainerAttributes ''/var/log/p-1_default_my_app-c0ffee.log'' []) ''k8s.container.name''
     = ''my_app''"
  using container_name_parts [of "''p-1''" "''default''" "''c0ffee''" "''my_app''" "''log''"
      "addContainerAttributes ''/var/log/p-1_default_my_app-c0ffee.log'' []" "''/var/log''" "[]"]
  by simp

text \<open>The path of a file of a process, absolute and without empty, dot or dot-dot elements as
  the kernel reports it, is looked up below the root directory of that process, and nowhere
  else but at the path itself.\<close>

theorem process_file_in_root:
  assumes "list_all plain_elem es" "es \<noteq> []" "0 \<le> pid"
    and "resolveProcessFile regular ''/proc'' pid (''/'' @ join ''/'' es) = Some path"
  shows "regular path \<and> path \<in> {''/proc/'' @ format_int pid @ ''/root/'' @ join ''/'' es, ''/'' @ join ''/'' es}"
proof -
  have "slash \<notin> set (format_uint n)" "dot \<notin> set (format_uint n)" for n
    using format_uint_digits [of slash n] format_uint_digits [of dot n] by auto
  then have "plain_elem (format_uint n)" for n
    using format_uint_nonempty [of n] by (metis list.set_intros(1) plain_elem_def)
  then have "plain_elem (format_int pid)"
    using assms(3) by (simp add: format_int_def)
  then have es: "list_all plain_elem (''proc'' # format_int pid # ''root'' # es)"
    using assms(1) by (simp add: plain_elem_def)
  have "process_root_path ''/proc'' pid (''/'' @ join ''/'' es)
      = Clean (slash # join [slash] (''proc'' # format_int pid # ''root'' # es))"
    using assms(2) by (simp add: process_root_path_def Join_path_def trim_prefix_def has_prefix_def join_Cons)
  also have "\<dots> = ''/proc/'' @ format_int pid @ ''/root/'' @ join ''/'' es"
    using assms(2) by (subst Clean_rooted [OF es]) (simp_all add: join_Cons)
  finally show ?thesis
    using assms(4) by (auto simp: resolveProcessFile_def split: if_splits)
qed

theorem process_file_in_root_witness:
  "the (resolveProcessFile (\<lambda>p. True) ''/proc'' 7 ''/a/b'') \<in> {''/proc/7/root/a/b'', ''/a/b''}"
proof -
  have "format_int 7 = ''7''" by code_simp
  moreover obtain q where "resolveProcessFile (\<lambda>p. True) ''/proc'' 7 (''/'' @ join ''/'' [''a'', ''b'']) = Some q"
    by (simp add: resolveProcessFile_def)
  ultimately show ?thesis
    using process_file_in_root [of "[''a'', ''b'']" 7 "\<lambda>p. True" q] by (simp add: plain_elem_def)
qed

end
