(* ===== verification/FlowControl.thy ===== *)
theory FlowControl
  imports Config Model
begin

text \<open>
  The limiter of \<open>internal/flowcontrol/limiter.go\<close>.  The token bucket is the package
  \<open>golang.org/x/time/rate\<close>, given by its operations \<open>Allow\<close> and \<open>Wait\<close> on a state
  \<open>'b\<close>; \<open>next\<close> is the downstream function on a state \<open>'x\<close>.  The history \<open>fl_log\<close>
  has the records for which \<open>Submit\<close> returned nil, each with whether it was passed on.
\<close>

section \<open>The limiter\<close>

record 'b bucket_ops =
  bo_allow :: "'b \<Rightarrow> bool \<times> 'b"
  bo_wait :: "'b \<Rightarrow> gerr option \<times> 'b"

record ('b, 'x) flow =
  fl_bucket :: 'b
  fl_dropped :: "64 word"
  fl_lastReport :: time
  fl_reports :: "(time \<times> 64 word) list"  \<comment> \<open>the warnings logged\<close>
  fl_log :: "(bool \<times> log_record) list"
  fl_next :: 'x

definition new_limiter :: "'b \<Rightarrow> time \<Rightarrow> 'x \<Rightarrow> ('b, 'x) flow" where
  "new_limiter b now x = \<lparr>fl_bucket = b, fl_dropped = 0, fl_lastReport = now, fl_reports = [],
     fl_log = [], fl_next = x\<rparr>"

definition recordDrop :: "flow_control_config \<Rightarrow> time \<Rightarrow> ('b, 'x) flow \<Rightarrow> ('b, 'x) flow" where
  "recordDrop cfg now s =
     (let dropped = fl_dropped s + 1 in
      if now - fl_lastReport s < fc_ReportInterval cfg then s\<lparr>fl_dropped := dropped\<rparr>
      else s\<lparr>fl_dropped := 0, fl_lastReport := now, fl_reports := fl_reports s @ [(now, dropped)]\<rparr>)"

definition forward :: "(log_record \<Rightarrow> 'x \<Rightarrow> gerr option \<times> 'x) \<Rightarrow> log_record \<Rightarrow> ('b, 'x) flow \<Rightarrow>
    gerr option \<times> ('b, 'x) flow" where
  "forward next r s =
     (case next r (fl_next s) of (err, x) \<Rightarrow>
        (err, s\<lparr>fl_next := x,
                fl_log := (if err = None then fl_log s @ [(True, r)] else fl_log s)\<rparr>))"

definition Submit :: "flow_control_config \<Rightarrow> 'b bucket_ops \<Rightarrow> ('x \<Rightarrow> time \<times> 'x) \<Rightarrow>
    (log_record \<Rightarrow> 'x \<Rightarrow> gerr option \<times> 'x) \<Rightarrow> log_record \<Rightarrow> ('b, 'x) flow \<Rightarrow>
    gerr option \<times> ('b, 'x) flow" where
  "Submit cfg ops now next r s =
     (if \<not> fc_Enabled cfg then forward next r s
      else if fc_Mode cfg = ''drop'' then
        (case bo_allow ops (fl_bucket s) of
           (False, b) \<Rightarrow>
             (let (t, x) = now (fl_next s)
              in (None, recordDrop cfg t (s\<lparr>fl_bucket := b, fl_next := x,
                    fl_log := fl_log s @ [(False, r)]\<rparr>)))
         | (True, b) \<Rightarrow> forward next r (s\<lparr>fl_bucket := b\<rparr>))
      else
        (case bo_wait ops (fl_bucket s) of
           (Some err, b) \<Rightarrow> (Some err, s\<lparr>fl_bucket := b\<rparr>)
         | (None, b) \<Rightarrow> forward next r (s\<lparr>fl_bucket := b\<rparr>)))"

section \<open>Every record is passed on, refused or counted\<close>

lemma recordDrop_fields [simp]:
  "fl_log (recordDrop cfg t s) = fl_log s" "fl_next (recordDrop cfg t s) = fl_next s"
  by (simp_all add: recordDrop_def Let_def)

lemma Submit_log:
  assumes "Submit cfg ops now next r s = (err, s')"
  shows "map snd (fl_log s') = map snd (fl_log s) @ (if err = None then [r] else [])"
  using assms
  by (auto simp: Submit_def forward_def Let_def split: if_splits prod.splits bool.splits option.splits)

lemma Submit_block:
  assumes "Submit cfg ops now next r s = (err, s')" "fc_Enabled cfg \<longrightarrow> fc_Mode cfg \<noteq> ''drop''"
  shows "fl_log s' = fl_log s @ (if err = None then [(True, r)] else [])
    \<and> fl_dropped s' = fl_dropped s \<and> fl_reports s' = fl_reports s"
  using assms
  by (auto simp: Submit_def forward_def Let_def split: if_splits prod.splits bool.splits option.splits)

lemma Submit_drop:
  assumes "Submit cfg ops now next r s = (err, s')" "fc_Enabled cfg" "fc_Mode cfg = ''drop''"
  shows "if fst (bo_allow ops (fl_bucket s))
    then err = fst (next r (fl_next s)) \<and> fl_next s' = snd (next r (fl_next s))
    else err = None \<and> fl_log s' = fl_log s @ [(False, r)] \<and> fl_next s' = snd (now (fl_next s))"
  using assms
  by (auto simp: Submit_def forward_def Let_def split: if_splits prod.splits bool.splits option.splits)

text \<open>The counts: what was reported plus what is still to be reported is what was dropped, and
  two reports are at least the report interval apart.\<close>

definition dropped_count :: "('b, 'x) flow \<Rightarrow> nat" where
  "dropped_count s = length (filter (\<lambda>p. \<not> fst p) (fl_log s))"

fun spaced :: "duration \<Rightarrow> time list \<Rightarrow> bool" where
  "spaced d (t # u # ts) \<longleftrightarrow> t + d \<le> u \<and> spaced d (u # ts)"
| "spaced d _ = True"

definition drop_inv :: "flow_control_config \<Rightarrow> time \<Rightarrow> ('b, 'x) flow \<Rightarrow> bool" where
  "drop_inv cfg start s \<longleftrightarrow>
     sum_list (map snd (fl_reports s)) + fl_dropped s = of_nat (dropped_count s)
     \<and> spaced (fc_ReportInterval cfg) (start # map fst (fl_reports s))
     \<and> fl_lastReport s = last (start # map fst (fl_reports s))"

lemma spaced_snoc: "spaced d (ts @ [t]) \<Longrightarrow> t + d \<le> u \<Longrightarrow> spaced d (ts @ [t, u])"
  by (induction d ts rule: spaced.induct) auto

lemma drop_inv_new: "drop_inv cfg now (new_limiter b now x)"
  by (simp add: drop_inv_def new_limiter_def dropped_count_def)

lemma drop_inv_forward:
  "drop_inv cfg start s \<Longrightarrow> forward next r (s\<lparr>fl_bucket := b\<rparr>) = (err, s') \<Longrightarrow> drop_inv cfg start s'"
  by (auto simp: drop_inv_def forward_def dropped_count_def split: prod.splits if_splits)

lemma drop_inv_record:
  assumes "drop_inv cfg start s"
  shows "drop_inv cfg start (recordDrop cfg t (s\<lparr>fl_bucket := b, fl_next := x,
    fl_log := fl_log s @ [(False, r)]\<rparr>))"
proof (cases "t - fl_lastReport s < fc_ReportInterval cfg")
  case True
  with assms show ?thesis by (simp add: drop_inv_def recordDrop_def dropped_count_def Let_def add.assoc [symmetric])
next
  case False
  let ?ts = "start # map fst (fl_reports s)"
  have "?ts = butlast ?ts @ [fl_lastReport s]"
    using assms by (metis append_butlast_last_id drop_inv_def list.distinct(1))
  then have "spaced (fc_ReportInterval cfg) (butlast ?ts @ [fl_lastReport s, t])"
    using assms False by (intro spaced_snoc) (auto simp: drop_inv_def)
  then have "spaced (fc_ReportInterval cfg) (?ts @ [t])"
    using \<open>?ts = butlast ?ts @ [fl_lastReport s]\<close> by (metis append.assoc append_Cons append_Nil)
  with assms False show ?thesis
    by (simp add: drop_inv_def recordDrop_def dropped_count_def Let_def add.assoc [symmetric])
qed

lemma drop_inv_Submit:
  assumes "drop_inv cfg start s" "Submit cfg ops now next r s = (err, s')"
  shows "drop_inv cfg start s'"
proof -
  have "s\<lparr>fl_bucket := fl_bucket s\<rparr> = s" by simp
  then have f: "forward next r s = (err, s') \<Longrightarrow> drop_inv cfg start s'"
    using drop_inv_forward [OF assms(1), of "next" r "fl_bucket s"] by simp
  have b: "drop_inv cfg start (s\<lparr>fl_bucket := c\<rparr>)" for c
    using assms(1) by (simp add: drop_inv_def dropped_count_def)
  show ?thesis
    using assms(2) f b drop_inv_forward [OF assms(1)] drop_inv_record [OF assms(1)]
    by (auto simp: Submit_def Let_def split: if_splits prod.splits bool.splits option.splits)
qed

section \<open>Properties\<close>

fun submit_all :: "flow_control_config \<Rightarrow> 'b bucket_ops \<Rightarrow> ('x \<Rightarrow> time \<times> 'x) \<Rightarrow>
    (log_record \<Rightarrow> 'x \<Rightarrow> gerr option \<times> 'x) \<Rightarrow> log_record list \<Rightarrow> ('b, 'x) flow \<Rightarrow> ('b, 'x) flow" where
  "submit_all cfg ops now next [] s = s"
| "submit_all cfg ops now next (r # rs) s =
     submit_all cfg ops now next rs (snd (Submit cfg ops now next r s))"

lemma submit_all_inv:
  "drop_inv cfg start s \<Longrightarrow> drop_inv cfg start (submit_all cfg ops now next rs s)"
  by (induction rs arbitrary: s) (auto intro: drop_inv_Submit prod.collapse [symmetric])

lemma submit_all_block:
  "fc_Enabled cfg \<longrightarrow> fc_Mode cfg \<noteq> ''drop'' \<Longrightarrow>
     dropped_count (submit_all cfg ops now next rs s) = dropped_count s"
proof (induction rs arbitrary: s)
  case (Cons r rs)
  obtain err s' where "Submit cfg ops now next r s = (err, s')" by fastforce
  with Submit_block [OF this Cons.prems] Cons show ?case by (simp add: dropped_count_def)
qed simp

text \<open>C29. Every dropped record is counted once: from a new limiter, after any sequence of
  \<open>Submit\<close> calls, the counts reported plus the count not yet reported are the records
  dropped, and the reports are at least the report interval apart.  In block mode, or with the
  limiter disabled, no record is dropped.\<close>

theorem drops_are_reported:
  "sum_list (map snd (fl_reports (submit_all cfg ops now next rs (new_limiter b t x))))
      + fl_dropped (submit_all cfg ops now next rs (new_limiter b t x))
      = of_nat (dropped_count (submit_all cfg ops now next rs (new_limiter b t x)))
   \<and> spaced (fc_ReportInterval cfg)
       (t # map fst (fl_reports (submit_all cfg ops now next rs (new_limiter b t x))))
   \<and> (fc_Enabled cfg \<and> fc_Mode cfg = ''drop''
      \<or> dropped_count (submit_all cfg ops now next rs (new_limiter b t x)) = 0)"
  using submit_all_inv [OF drop_inv_new, of cfg t ops now "next" rs b x]
    submit_all_block [of cfg ops now "next" rs "new_limiter b t x"]
  by (auto simp: drop_inv_def dropped_count_def new_limiter_def)

text \<open>\<open>Submit\<close> returns nil exactly for the records that are passed on or dropped, each of
  which it handles once, in order.\<close>

theorem Submit_handles_once:
  "map snd (fl_log (snd (Submit cfg ops now next r s))) =
     map snd (fl_log s) @ (if fst (Submit cfg ops now next r s) = None then [r] else [])"
  by (rule Submit_log) simp

end
