(* ===== verification/LineReader.thy ===== *)
theory LineReader
  imports GoStrings
begin

text \<open>
  Reading bounded lines (\<open>readBoundedLine\<close> and \<open>truncateRunes\<close> of
  \<open>internal/tailer/tailer.go\<close>) over a \<open>bufio.Reader\<close>.  The reader is the bytes not
  yet consumed, the size of its buffer and the error the file gives after its last byte
  (\<open>io.EOF\<close>, or the error of a failed read).  \<open>ReadSlice\<close> returns through the
  delimiter when it is among the bytes the buffer can hold, the rest of the file with the
  final error when that is shorter than the buffer, and else a full buffer with
  \<open>bufio.ErrBufferFull\<close>.
\<close>

section \<open>The code\<close>

definition truncateRunes :: "string \<Rightarrow> nat \<Rightarrow> string" where
  "truncateRunes value limit =
     (let rs = runes value in of_runes (if limit < length rs then take limit rs else rs))"

record reader =
  rd_data :: string
  rd_size :: nat
  rd_end :: gerr

definition min_read_buffer :: nat where
  "min_read_buffer = 16"

definition newReaderSize :: "string \<Rightarrow> gerr \<Rightarrow> nat \<Rightarrow> reader" where
  "newReaderSize data fin sz = \<lparr>rd_data = data, rd_size = sz, rd_end = fin\<rparr>"

definition buffer_size :: "reader \<Rightarrow> nat" where
  "buffer_size r = max min_read_buffer (rd_size r)"

definition read_slice :: "reader \<Rightarrow> string \<times> gerr option \<times> reader" where
  "read_slice r =
     (let data = rd_data r; b = buffer_size r in
      if newline \<in> set (take b data) then
        let n = Suc (length (takeWhile (\<lambda>c. c \<noteq> newline) data))
        in (take n data, None, r\<lparr>rd_data := drop n data\<rparr>)
      else if length data < b then (data, Some (rd_end r), r\<lparr>rd_data := []\<rparr>)
      else (take b data, Some BufferFull, r\<lparr>rd_data := drop b data\<rparr>))"

lemma read_slice_full_shorter:
  assumes "read_slice r = (part, Some BufferFull, r')" "rd_end r \<noteq> BufferFull"
  shows "length (rd_data r') < length (rd_data r) \<and> rd_end r' = rd_end r"
  using assms by (auto simp: read_slice_def Let_def buffer_size_def min_read_buffer_def split: if_splits)

text \<open>The bytes of \<open>part\<close> that still fit: \<open>maxSize*4\<close> is a product of 64-bit integers.\<close>

definition keep_part :: "nat \<Rightarrow> string \<Rightarrow> string \<Rightarrow> string" where
  "keep_part maxSize kept part =
     (let remaining = wrap64 (int maxSize * 4) - int (length kept);
          remaining = (if int (length part) < remaining then int (length part) else remaining)
      in if 0 < remaining then kept @ take (nat remaining) part else kept)"

text \<open>The loop; its result is the line, the bytes consumed, whether the line is complete and
  the error.  A full buffer always leaves fewer bytes, which the first test repeats for the
  termination argument.\<close>

function read_line_loop :: "nat \<Rightarrow> string \<Rightarrow> nat \<Rightarrow> reader \<Rightarrow>
    (string \<times> nat \<times> bool \<times> gerr option) \<times> reader" where
  "read_line_loop maxSize kept consumed r =
     (let (part, err, r') = read_slice r;
          consumed' = consumed + length part;
          kept' = keep_part maxSize kept part
      in case err of
           None \<Rightarrow> ((truncateRunes (trim_suffix (trim_suffix kept' [newline]) [carriage_return])
                     maxSize, consumed', True, None), r')
         | Some e \<Rightarrow>
             if e = BufferFull \<and> length (rd_data r') < length (rd_data r)
             then read_line_loop maxSize kept' consumed' r'
             else ((truncateRunes kept' maxSize, consumed', False, Some e), r'))"
  by pat_completeness auto
termination
  by (relation "measure (\<lambda>(m, k, c, r). length (rd_data r))") auto

declare read_line_loop.simps [simp del]

definition readBoundedLine :: "reader \<Rightarrow> nat \<Rightarrow> (string \<times> nat \<times> bool \<times> gerr option) \<times> reader" where
  "readBoundedLine r maxSize = read_line_loop maxSize [] 0 r"

section \<open>Truncation\<close>

lemma truncateRunes_take: "truncateRunes s n = of_runes (take n (runes s))"
  by (simp add: truncateRunes_def Let_def)

lemma valid_take: "\<forall>r \<in> set (take n (runes s)). valid_rune r"
  using runes_valid [of _ s] by (meson in_set_takeD)

lemma runes_truncate [simp]: "runes (truncateRunes s n) = take n (runes s)"
  by (simp add: truncateRunes_take runes_of_runes valid_take)

lemma truncate_valid: "valid_utf8 (truncateRunes s n)"
  by (simp add: truncateRunes_take valid_utf8_of_runes valid_take)

lemma truncate_rune_len: "rune_len (truncateRunes s n) \<le> n"
  by (simp add: rune_len_def)

lemma truncate_length: "length (truncateRunes s n) \<le> 4 * n"
proof -
  have "length (truncateRunes s n) \<le> 4 * length (take n (runes s))"
    by (simp only: truncateRunes_take length_of_runes)
  then show ?thesis by (simp add: min_def split: if_splits)
qed

lemma truncate_idem [simp]: "truncateRunes (truncateRunes s n) n = truncateRunes s n"
  by (subst truncateRunes_take) (simp, simp add: truncateRunes_take)

text \<open>A byte prefix of four times the limit is as good as the whole string, and so is one
  that has lost a trailing ASCII byte.\<close>

lemma truncate_prefix: "4 * n \<le> m \<Longrightarrow> truncateRunes (take m s) n = truncateRunes s n"
  by (simp add: truncateRunes_take take_runes_prefix)

lemma runes_snoc: "\<not> cont_byte d \<Longrightarrow> runes (s @ [d]) = runes s @ runes [d]"
proof (induction s rule: chunks.induct)
  case (2 c cs)
  let ?w = "snd (decode_first c (cs @ [d]))"
  have w: "?w \<le> Suc (length cs)"
  proof (rule ccontr)
    assume "\<not> ?w \<le> Suc (length cs)"
    then have "0 < ?w - Suc (length cs)" by simp
    then have "d \<in> set (take (?w - Suc (length cs)) [d])" by (cases "?w - Suc (length cs)") auto
    with decode_crossing [of c cs "[d]"] 2 show False by blast
  qed
  then have d: "decode_first c (cs @ [d]) = decode_first c cs" by (rule decode_append)
  with w have "drop ?w ((c # cs) @ [d]) = drop ?w (c # cs) @ [d]" by (simp del: append_Cons)
  with 2 d show ?case by (simp add: runes_Cons)
qed simp

lemma length_le_runes: "length s \<le> 4 * length (runes s)"
proof (induction s rule: chunks.induct)
  case (2 c cs)
  then show ?case using decode_width4 [of c cs] by (simp add: runes_Cons)
qed simp

lemma truncate_butlast:
  assumes "s \<noteq> []" "\<not> cont_byte (last s)" "4 * n \<le> length s"
  shows "truncateRunes (butlast s) n = truncateRunes s n"
proof -
  have "runes s = runes (butlast s) @ runes [last s]"
    using runes_snoc [OF assms(2), of "butlast s"] assms(1) by simp
  moreover have "n \<le> length (runes (butlast s))"
    using length_le_runes [of "butlast s"] assms by simp
  ultimately show ?thesis by (simp add: truncateRunes_take)
qed

section \<open>The loop\<close>

lemma keep_part_take:
  assumes "int m * 4 < 2 ^ 63"
  shows "keep_part m (take (4 * m) pre) part = take (4 * m) (pre @ part)"
proof -
  have "wrap64 (int m * 4) = int m * 4" using assms by (intro wrap64_id) simp_all
  moreover have "nat (int m * 4) = 4 * m" by simp
  ultimately show ?thesis by (auto simp: keep_part_def Let_def nat_diff_distrib)
qed

text \<open>What one \<open>ReadSlice\<close> gives: a line end, the end of the data, or a full buffer.\<close>

lemma read_slice_cases:
  obtains (line) l rest where "newline \<notin> set l" "rd_data r = l @ newline # rest"
      "read_slice r = (l @ [newline], None, r\<lparr>rd_data := rest\<rparr>)"
  | (finished) "newline \<notin> set (rd_data r)"
      "read_slice r = (rd_data r, Some (rd_end r), r\<lparr>rd_data := []\<rparr>)"
  | (full) p rest where "newline \<notin> set p" "p \<noteq> []" "rd_data r = p @ rest"
      "read_slice r = (p, Some BufferFull, r\<lparr>rd_data := rest\<rparr>)"
proof -
  let ?d = "rd_data r" and ?b = "buffer_size r"
  consider "newline \<in> set (take ?b ?d)" | "newline \<notin> set (take ?b ?d)" "length ?d < ?b"
    | "newline \<notin> set (take ?b ?d)" "?b \<le> length ?d" by linarith
  then show thesis
  proof cases
    case 1
    then have "newline \<in> set ?d" by (meson in_set_takeD)
    then obtain l rest where d: "?d = l @ newline # rest" "newline \<notin> set l"
      by (meson split_list_first)
    then have "length (takeWhile (\<lambda>c. c \<noteq> newline) ?d) = length l"
      by (simp add: takeWhile_append)
    with 1 d show thesis by (intro line [of l rest]) (simp_all add: read_slice_def Let_def)
  next
    case 2
    then show thesis by (intro finished) (simp_all add: read_slice_def Let_def)
  next
    case 3
    moreover have "0 < ?b" by (simp add: buffer_size_def min_read_buffer_def)
    ultimately show thesis
      by (intro full [of "take ?b ?d" "drop ?b ?d"]) (auto simp: read_slice_def Let_def)
  qed
qed

lemma read_line_loop_line:
  assumes "int m * 4 < 2 ^ 63" "newline \<notin> set l" "rd_data r = l @ newline # rest"
  shows "read_line_loop m (take (4 * m) pre) (length pre) r =
    ((truncateRunes (trim_suffix (trim_suffix (take (4 * m) (pre @ l @ [newline])) [newline])
        [carriage_return]) m, length pre + length l + 1, True, None), r\<lparr>rd_data := rest\<rparr>)"
  using assms(2,3)
proof (induction "length l" arbitrary: l r pre rule: less_induct)
  case less
  show ?case
  proof (cases r rule: read_slice_cases)
    case (line l' rest')
    with less.prems have "l' @ newline # rest' = l @ newline # rest" by simp
    then have "l' = l" "rest' = rest"
      using line(1) less.prems(1) by (simp_all add: append_first_eq)
    with line assms(1) show ?thesis
      by (subst read_line_loop.simps) (simp add: keep_part_take)
  next
    case finished
    with less.prems show ?thesis by simp
  next
    case (full p rest')
    have "p @ rest' = l @ newline # rest" using full less.prems by simp
    then obtain us where "p = l @ us \<and> us @ rest' = newline # rest
        \<or> l = p @ us \<and> rest' = us @ newline # rest"
      by (auto simp: append_eq_append_conv2)
    then obtain l' where l: "l = p @ l'" "rest' = l' @ newline # rest"
      using full(1) by (cases us) auto
    have "read_line_loop m (take (4 * m) (pre @ p)) (length (pre @ p)) (r\<lparr>rd_data := rest'\<rparr>) =
      ((truncateRunes (trim_suffix (trim_suffix (take (4 * m) ((pre @ p) @ l' @ [newline]))
         [newline]) [carriage_return]) m, length (pre @ p) + length l' + 1, True, None),
       (r\<lparr>rd_data := rest'\<rparr>)\<lparr>rd_data := rest\<rparr>)"
      using less.prems full(2) l by (intro less.hyps) auto
    with full l show ?thesis
      by (subst read_line_loop.simps) (simp add: keep_part_take [OF assms(1)] add.assoc)
  qed
qed

lemma read_line_loop_partial:
  assumes "int m * 4 < 2 ^ 63" "newline \<notin> set (rd_data r)" "rd_end r \<noteq> BufferFull"
  shows "read_line_loop m (take (4 * m) pre) (length pre) r =
    ((truncateRunes (take (4 * m) (pre @ rd_data r)) m, length pre + length (rd_data r), False,
      Some (rd_end r)), r\<lparr>rd_data := []\<rparr>)"
  using assms(2,3)
proof (induction "length (rd_data r)" arbitrary: r pre rule: less_induct)
  case less
  show ?case
  proof (cases r rule: read_slice_cases)
    case (line l' rest')
    with less.prems show ?thesis by simp
  next
    case finished
    with less.prems assms(1) show ?thesis
      by (subst read_line_loop.simps) (simp add: keep_part_take)
  next
    case (full p rest')
    have "read_line_loop m (take (4 * m) (pre @ p)) (length (pre @ p)) (r\<lparr>rd_data := rest'\<rparr>) =
      ((truncateRunes (take (4 * m) ((pre @ p) @ rd_data (r\<lparr>rd_data := rest'\<rparr>))) m,
        length (pre @ p) + length (rd_data (r\<lparr>rd_data := rest'\<rparr>)), False,
        Some (rd_end (r\<lparr>rd_data := rest'\<rparr>))), (r\<lparr>rd_data := rest'\<rparr>)\<lparr>rd_data := []\<rparr>)"
      using less.prems full by (intro less.hyps) auto
    with full show ?thesis
      by (subst read_line_loop.simps) (simp add: keep_part_take [OF assms(1)] add.assoc)
  qed
qed

section \<open>The bounded line is the truncated line\<close>

definition trim_cr :: "string \<Rightarrow> string" where
  "trim_cr l = trim_suffix l [carriage_return]"

text \<open>Cutting the raw bytes at \<open>4 * maxSize\<close> before the line end is removed changes
  nothing: the first \<open>maxSize\<close> runes lie within the cut.\<close>

lemma truncate_raw_line:
  assumes "newline \<notin> set l"
  shows "truncateRunes (trim_suffix (trim_suffix (take (4 * m) (l @ [newline])) [newline])
      [carriage_return]) m = truncateRunes (trim_cr l) m"
proof (cases "length l < 4 * m")
  case True
  then show ?thesis by (simp add: trim_cr_def)
next
  case False
  let ?k = "take (4 * m) l"
  have cr: "truncateRunes (trim_cr s) m = truncateRunes s m" if "4 * m \<le> length s" for s
    using that truncate_butlast [of s m] by (auto simp: trim_cr_def trim_suffix_single cont_byte_def)
  have "newline \<notin> set ?k" using assms by (meson in_set_takeD)
  then have "trim_suffix ?k [newline] = ?k"
    unfolding trim_suffix_single by (metis last_in_set)
  moreover have "take (4 * m) (l @ [newline]) = ?k" using False by simp
  moreover have "truncateRunes (trim_cr ?k) m = truncateRunes (trim_cr l) m"
    using False by (simp add: cr truncate_prefix)
  ultimately show ?thesis by (simp add: trim_cr_def)
qed

lemma readBoundedLine_line:
  assumes "int m * 4 < 2 ^ 63" "newline \<notin> set l"
  shows "readBoundedLine \<lparr>rd_data = l @ newline # rest, rd_size = b, rd_end = fin\<rparr> m =
    ((truncateRunes (trim_cr l) m, length l + 1, True, None),
     \<lparr>rd_data = rest, rd_size = b, rd_end = fin\<rparr>)"
  using read_line_loop_line [OF assms, of "\<lparr>rd_data = l @ newline # rest, rd_size = b, rd_end = fin\<rparr>"
      rest "[]"]
  by (simp add: readBoundedLine_def truncate_raw_line [OF assms(2)] del: take_append)

lemma readBoundedLine_partial:
  assumes "int m * 4 < 2 ^ 63" "newline \<notin> set data" "fin \<noteq> BufferFull"
  shows "readBoundedLine \<lparr>rd_data = data, rd_size = b, rd_end = fin\<rparr> m =
    ((truncateRunes data m, length data, False, Some fin), \<lparr>rd_data = [], rd_size = b, rd_end = fin\<rparr>)"
  using read_line_loop_partial [OF assms(1), of "\<lparr>rd_data = data, rd_size = b, rd_end = fin\<rparr>" "[]"] assms
  by (simp add: readBoundedLine_def truncate_prefix)

section \<open>Properties\<close>

text \<open>C14. \<open>readBoundedLine\<close> refines its specification: over a buffer of any size it consumes
  exactly one line with its line end and returns the line, without the line end and a carriage
  return before it, cut to \<open>maxSize\<close> runes; without a line end it consumes the rest of the
  file, says that the line is not complete, and returns the error of the file.\<close>

theorem readBoundedLine_refines:
  assumes "int maxSize * 4 < 2 ^ 63" "newline \<notin> set l" "fin \<noteq> BufferFull"
  shows "readBoundedLine \<lparr>rd_data = l @ newline # rest, rd_size = b, rd_end = fin\<rparr> maxSize =
      ((truncateRunes (trim_cr l) maxSize, length l + 1, True, None),
       \<lparr>rd_data = rest, rd_size = b, rd_end = fin\<rparr>)
    \<and> readBoundedLine \<lparr>rd_data = l, rd_size = b, rd_end = fin\<rparr> maxSize =
      ((truncateRunes l maxSize, length l, False, Some fin), \<lparr>rd_data = [], rd_size = b, rd_end = fin\<rparr>)"
  using readBoundedLine_line [OF assms(1,2)] readBoundedLine_partial [OF assms] by blast

theorem readBoundedLine_refines_witness:
  "fst (fst (readBoundedLine \<lparr>rd_data = ''abcdef'' @ newline # ''gh'', rd_size = 4, rd_end = EOF\<rparr> 3)) =
     truncateRunes ''abcdef'' 3"
  using readBoundedLine_refines [of 3 "''abcdef''" EOF "''gh''" 4]
  by (simp add: trim_cr_def trim_suffix_single)

text \<open>\<open>truncateRunes\<close> returns valid UTF-8 of at most \<open>limit\<close> runes and four times as
  many bytes, whatever bytes it is given, namely the first runes of its argument; applied
  again it changes nothing.\<close>

theorem truncateRunes_bounds:
  "valid_utf8 (truncateRunes s n) \<and> rune_len (truncateRunes s n) \<le> n
   \<and> length (truncateRunes s n) \<le> 4 * n
   \<and> runes (truncateRunes s n) = take n (runes s)
   \<and> truncateRunes (truncateRunes s n) n = truncateRunes s n"
  using truncate_valid truncate_rune_len truncate_length by simp

end
