(* ===== verification/Tailer.thy ===== *)
theory Tailer
  imports Prepare LineReader StateStore
begin

text \<open>
  The tailer of \<open>internal/tailer/tailer.go\<close>: reading a file from its stored offset,
  merging lines, flushing and closing.  The state is the position table, the map of pending
  multi-line bodies and the outside world \<open>'w\<close>, which the function \<open>emit\<close> and the
  clock act on; \<open>emit\<close> may fail.  The map \<open>pending\<close> holds pointers, so an entry has
  the number of its allocation.  A file is what \<open>Open\<close>, \<open>Stat\<close> and the reads return.
\<close>

section \<open>State\<close>

record pending =
  pd_ref :: nat
  pd_body :: string
  pd_size :: nat
  pd_lines :: nat
  pd_target :: file_target
  pd_timestamp :: time
  pd_attributes :: "smap option"
  pd_updated :: time
  pd_start :: "regexp option"

record 'w tailer =
  tl_state :: store
  tl_pending :: "(string \<times> pending) list"
  tl_next :: nat
  tl_world :: 'w

record 'w env =
  env_emit :: "log_record \<Rightarrow> 'w \<Rightarrow> gerr option \<times> 'w"
  env_now :: "'w \<Rightarrow> time \<times> 'w"
  env_compile :: "string \<Rightarrow> regexp option"
  env_parse_time :: "string \<Rightarrow> time option"

record limits =
  lim_read :: int
  lim_log :: nat
  lim_multiline :: nat
  lim_lines :: nat

record file_view =
  fv_stat :: "gerr + stat_t option \<times> int"
  fv_data :: string
  fv_end :: gerr

section \<open>Emitting\<close>

definition emitPrepared :: "'w env \<Rightarrow> log_record \<Rightarrow> 'w \<Rightarrow> gerr option \<times> 'w" where
  "emitPrepared e record w =
     (if Dropped record then (None, w)
      else
        let (ts, w) = (if is_zero_time (Timestamp record) then env_now e w
                       else (Timestamp record, w));
            (observed, w) = env_now e w
        in env_emit e (record\<lparr>Timestamp := ts, ObservedTimestamp := observed\<rparr>) w)"

definition emitRecord ::
    "'w env \<Rightarrow> file_target \<Rightarrow> string \<Rightarrow> time \<Rightarrow> smap option \<Rightarrow> 'w \<Rightarrow> gerr option \<times> 'w" where
  "emitRecord e target body timestamp attrs w =
     (case preparedRecord target body timestamp attrs of
        Inl err \<Rightarrow> (Some err, w)
      | Inr record \<Rightarrow> emitPrepared e record w)"

section \<open>Accepting a line\<close>

definition cri_line :: "'w env \<Rightarrow> file_target \<Rightarrow> string \<Rightarrow> string \<times> time \<times> smap option" where
  "cri_line e target line =
     (if Format target = ''cri'' then
        (case parseCRI (env_parse_time e) line of
           Some (body, ts, stream, flag) \<Rightarrow>
             (body, ts, Some [(''log.iostream'', stream), (''log.cri.flag'', flag)])
         | None \<Rightarrow> (line, zero_time, None))
      else (line, zero_time, None))"

text \<open>The entry of a key, made on first use; a pattern that does not compile leaves a nil
  \<open>start\<close>.\<close>

definition obtain_pending ::
    "'w env \<Rightarrow> string \<Rightarrow> file_target \<Rightarrow> 'w tailer \<Rightarrow> pending \<times> 'w tailer" where
  "obtain_pending e key target s =
     (case map_of (tl_pending s) key of
        Some p \<Rightarrow> (p, s)
      | None \<Rightarrow>
          let (now, w) = env_now e (tl_world s);
              p = \<lparr>pd_ref = tl_next s, pd_body = [], pd_size = 0, pd_lines = 0,
                   pd_target = target, pd_timestamp = zero_time, pd_attributes = None,
                   pd_updated = now, pd_start = env_compile e (StartPattern (Multiline target))\<rparr>
          in (p, s\<lparr>tl_pending := map_set key p (tl_pending s), tl_next := Suc (tl_next s),
                    tl_world := w\<rparr>))"

definition over_limit :: "limits \<Rightarrow> pending \<Rightarrow> string \<Rightarrow> bool" where
  "over_limit lim p line \<longleftrightarrow> pd_body p \<noteq> [] \<and>
     (lim_multiline lim < pd_size p + length line + 1 \<or> lim_lines lim \<le> pd_lines p)"

text \<open>The record of a pending body.  A map of attributes that is not nil is shared with the
  record, so it is changed in the entry too.\<close>

definition prepared_pending :: "pending \<Rightarrow> gerr + log_record \<times> pending" where
  "prepared_pending p =
     (case preparedRecord (pd_target p) (pd_body p) (pd_timestamp p) (pd_attributes p) of
        Inl err \<Rightarrow> Inl err
      | Inr record \<Rightarrow> Inr (record, p\<lparr>pd_attributes :=
            (if pd_attributes p = None then None else RecAttributes record)\<rparr>))"

definition append_line ::
    "string \<Rightarrow> time \<Rightarrow> smap option \<Rightarrow> time \<Rightarrow> pending \<Rightarrow> pending" where
  "append_line line timestamp attrs now p =
     (let p = (if pd_body p = [] then p\<lparr>pd_timestamp := timestamp, pd_attributes := attrs\<rparr>
               else p\<lparr>pd_body := pd_body p @ [newline], pd_size := pd_size p + 1\<rparr>)
      in p\<lparr>pd_body := pd_body p @ line, pd_size := pd_size p + length line,
           pd_lines := pd_lines p + 1, pd_updated := now\<rparr>)"

definition put_line :: "'w env \<Rightarrow> string \<Rightarrow> string \<Rightarrow> time \<Rightarrow> smap option \<Rightarrow> pending \<Rightarrow>
    'w tailer \<Rightarrow> gerr option \<times> 'w tailer" where
  "put_line e key line timestamp attrs p s =
     (let (now, w) = env_now e (tl_world s)
      in (None, s\<lparr>tl_pending := map_set key (append_line line timestamp attrs now p)
                                  (tl_pending s), tl_world := w\<rparr>))"

text \<open>Emitting the body collected so far, outside the lock; on success the entry is emptied.\<close>

definition flush_body :: "'w env \<Rightarrow> string \<Rightarrow> pending \<Rightarrow> 'w tailer \<Rightarrow>
    gerr option \<times> pending \<times> 'w tailer" where
  "flush_body e key p s =
     (case prepared_pending p of
        Inl err \<Rightarrow> (Some err, p, s)
      | Inr (record, p) \<Rightarrow>
          (case emitPrepared e record (tl_world s) of
             (Some err, w) \<Rightarrow>
               (Some err, p, s\<lparr>tl_pending := map_set key p (tl_pending s), tl_world := w\<rparr>)
           | (None, w) \<Rightarrow>
               (None, p\<lparr>pd_body := [], pd_size := 0, pd_lines := 0\<rparr>, s\<lparr>tl_world := w\<rparr>)))"

definition accept :: "'w env \<Rightarrow> limits \<Rightarrow> string \<Rightarrow> file_target \<Rightarrow> string \<Rightarrow> 'w tailer \<Rightarrow>
    gerr option \<times> 'w tailer" where
  "accept e lim key target line s =
     (let (line, timestamp, attrs) = cri_line e target line in
      if StartPattern (Multiline target) = [] then
        (let (err, w) = emitRecord e target line timestamp attrs (tl_world s)
         in (err, s\<lparr>tl_world := w\<rparr>))
      else
        let line = (if lim_multiline lim < length line
                    then truncateRunes line (lim_multiline lim) else line);
            (p, s) = obtain_pending e key target s
        in case pd_start p of
             None \<Rightarrow> (Some (Panic ''nil *Regexp''), s)
           | Some start \<Rightarrow>
               if (match_string start line \<or> over_limit lim p line) \<and> pd_body p \<noteq> [] then
                 (case flush_body e key p s of
                    (Some err, p, s) \<Rightarrow> (Some err, s)
                  | (None, p, s) \<Rightarrow> put_line e key line timestamp attrs p s)
               else put_line e key line timestamp attrs p s)"

section \<open>Reading a file\<close>

definition identity :: "stat_t option \<Rightarrow> gerr + string" where
  "identity info = (case info of
     None \<Rightarrow> Inl (Errorf ''unsupported file identity'') | Some st \<Rightarrow> Inr (identity_key st))"

text \<open>The offset a round starts at: the stored one, or 0, or the end; 0 after a truncation.\<close>

definition read_offset :: "position option \<Rightarrow> string \<Rightarrow> int \<Rightarrow> int" where
  "read_offset pos start_at fsize =
     (let offset = (case pos of Some p \<Rightarrow> Offset p | None \<Rightarrow> 0);
          offset = (if pos = None \<and> start_at = ''end'' then fsize else offset)
      in if fsize < offset then 0 else offset)"

lemma read_line_loop_consumes:
  "read_line_loop m kept consumed r = ((line, n, complete, err), r') \<Longrightarrow>
     n + length (rd_data r') = consumed + length (rd_data r)
     \<and> (complete \<longrightarrow> consumed < n \<and> err = None)"
proof (induction m kept consumed r rule: read_line_loop.induct)
  case (1 m kept consumed r)
  show ?case
  proof (cases r rule: read_slice_cases)
    case (line l rest)
    with 1(2) show ?thesis by (subst (asm) read_line_loop.simps) auto
  next
    case finished
    show ?thesis
    proof (cases "rd_end r = BufferFull \<and> rd_data r \<noteq> []")
      case True
      with 1(2) finished have "read_line_loop m (keep_part m kept (rd_data r))
          (consumed + length (rd_data r)) (r\<lparr>rd_data := []\<rparr>) = ((line, n, complete, err), r')"
        by (subst (asm) read_line_loop.simps) (simp add: Let_def)
      with 1(1) finished True show ?thesis by fastforce
    next
      case False
      with 1(2) finished show ?thesis
        by (subst (asm) read_line_loop.simps) (auto simp: Let_def)
    qed
  next
    case (full p rest)
    with 1(2) have "read_line_loop m (keep_part m kept p) (consumed + length p)
        (r\<lparr>rd_data := rest\<rparr>) = ((line, n, complete, err), r')"
      by (subst (asm) read_line_loop.simps) simp
    with 1(1) full show ?thesis by fastforce
  qed
qed

lemma readBoundedLine_consumes:
  "readBoundedLine r m = ((line, n, complete, err), r') \<Longrightarrow>
     n + length (rd_data r') = length (rd_data r) \<and> (complete \<longrightarrow> 0 < n \<and> err = None)"
  unfolding readBoundedLine_def by (drule read_line_loop_consumes) simp

text \<open>The loop of \<open>read\<close>; it returns the error, the committed offset and the state.\<close>

function read_loop :: "'w env \<Rightarrow> limits \<Rightarrow> string \<Rightarrow> file_target \<Rightarrow> int \<Rightarrow> int \<Rightarrow> int \<Rightarrow> reader \<Rightarrow>
    'w tailer \<Rightarrow> gerr option \<times> int \<times> 'w tailer" where
  "read_loop e lim key target offset readBytes committed r s =
     (if readBytes < lim_read lim then
        (case readBoundedLine r (lim_log lim) of
           ((line, consumed, complete, readErr), r') \<Rightarrow>
             if consumed = 0 \<and> readErr \<noteq> None then (None, committed, s)
             else if \<not> complete then (None, committed, s)
             else
               (case accept e lim key target line s of
                  (Some err, s') \<Rightarrow> (Some err, committed, s')
                | (None, s') \<Rightarrow>
                    if readErr \<noteq> None then (None, offset + int consumed, s')
                    else read_loop e lim key target (offset + int consumed)
                           (readBytes + int consumed) (offset + int consumed) r' s'))
      else (None, committed, s))"
  by pat_completeness auto
termination
  by (relation "measure (\<lambda>(e, lim, key, target, offset, readBytes, committed, r, s).
        length (rd_data r))") (auto dest!: readBoundedLine_consumes [OF sym])

declare read_loop.simps [simp del]

definition read_buffer_size :: nat where
  "read_buffer_size = 64 * 1024"

text \<open>The deferred update of the position.\<close>

definition commit_offset ::
    "'w env \<Rightarrow> string \<Rightarrow> file_target \<Rightarrow> int \<Rightarrow> int \<Rightarrow> 'w tailer \<Rightarrow> 'w tailer" where
  "commit_offset e key target initial committed s =
     (if committed \<noteq> initial then
        let (now, w) = env_now e (tl_world s)
        in s\<lparr>tl_state := Set key \<lparr>PosPath = Path target, Offset = committed, UpdatedAt = now\<rparr>
               (tl_state s), tl_world := w\<rparr>
      else s)"

definition read :: "'w env \<Rightarrow> limits \<Rightarrow> (string \<Rightarrow> gerr + file_view) \<Rightarrow> file_target \<Rightarrow>
    'w tailer \<Rightarrow> gerr option \<times> 'w tailer" where
  "read e lim fs target s =
     (case fs (Path target) of
        Inl err \<Rightarrow> (Some err, s)
      | Inr f \<Rightarrow>
     (case fv_stat f of
        Inl err \<Rightarrow> (Some err, s)
      | Inr (info, fsize) \<Rightarrow>
     (case identity info of
        Inl err \<Rightarrow> (Some err, s)
      | Inr key \<Rightarrow>
          let pos = Get (tl_state s) key;
              offset = read_offset pos (StartAt target) fsize;
              initial = (case pos of Some p \<Rightarrow> Offset p | None \<Rightarrow> 0)
          in if offset < 0 then (Some (IOErr ''seek: invalid argument''), s)
             else
               let (err, committed, s') = read_loop e lim key target offset 0 offset
                     (newReaderSize (drop (nat offset) (fv_data f)) (fv_end f) read_buffer_size) s
               in (err, commit_offset e key target initial committed s'))))"

section \<open>Flushing and closing\<close>

record expired =
  xp_key :: string
  xp_ref :: nat
  xp_record :: log_record

text \<open>The first phase looks at every entry and prepares the records of the old ones, under the
  lock; the second emits them and removes the entries that are still in the map.\<close>

definition flush_after :: "pending \<Rightarrow> duration" where
  "flush_after p = (let after = FlushAfter (Multiline (pd_target p))
                    in if after \<le> 0 then 5 * second else after)"

fun flush_select :: "time \<Rightarrow> (string \<times> pending) list \<Rightarrow>
    gerr option \<times> expired list \<times> (string \<times> pending) list" where
  "flush_select now [] = (None, [], [])"
| "flush_select now ((key, p) # kps) =
     (if flush_after p \<le> now - pd_updated p \<and> pd_body p \<noteq> [] then
        (case prepared_pending p of
           Inl err \<Rightarrow> (Some err, [], (key, p) # kps)
         | Inr (record, p') \<Rightarrow>
             (case flush_select now kps of (err, xs, kps') \<Rightarrow>
                (err, \<lparr>xp_key = key, xp_ref = pd_ref p, xp_record = record\<rparr> # xs, (key, p') # kps')))
      else (case flush_select now kps of (err, xs, kps') \<Rightarrow> (err, xs, (key, p) # kps')))"

definition drop_entry :: "expired \<Rightarrow> (string \<times> pending) list \<Rightarrow> (string \<times> pending) list" where
  "drop_entry x kps =
     (if map_option pd_ref (map_of kps (xp_key x)) = Some (xp_ref x)
      then AList.delete (xp_key x) kps else kps)"

fun flush_emit :: "'w env \<Rightarrow> expired list \<Rightarrow> 'w tailer \<Rightarrow> gerr option \<times> 'w tailer" where
  "flush_emit e [] s = (None, s)"
| "flush_emit e (x # xs) s =
     (case emitPrepared e (xp_record x) (tl_world s) of
        (Some err, w) \<Rightarrow> (Some err, s\<lparr>tl_world := w\<rparr>)
      | (None, w) \<Rightarrow>
          flush_emit e xs (s\<lparr>tl_pending := drop_entry x (tl_pending s), tl_world := w\<rparr>))"

definition flushExpired :: "'w env \<Rightarrow> time \<Rightarrow> 'w tailer \<Rightarrow> gerr option \<times> 'w tailer" where
  "flushExpired e now s =
     (case flush_select now (tl_pending s) of
        (Some err, xs, kps) \<Rightarrow> (Some err, s\<lparr>tl_pending := kps\<rparr>)
      | (None, xs, kps) \<Rightarrow> flush_emit e xs (s\<lparr>tl_pending := kps\<rparr>))"

text \<open>\<open>Poll\<close>: the workers read the targets, here in the order they are handed out; when the
  context is cancelled after \<open>n\<close> hand-overs the round ends without the flush.  The errors of
  the reads are only logged.\<close>

fun read_all :: "'w env \<Rightarrow> limits \<Rightarrow> (string \<Rightarrow> gerr + file_view) \<Rightarrow> file_target list \<Rightarrow>
    'w tailer \<Rightarrow> 'w tailer" where
  "read_all e lim fs [] s = s"
| "read_all e lim fs (t # ts) s = read_all e lim fs ts (snd (read e lim fs t s))"

definition Poll :: "'w env \<Rightarrow> limits \<Rightarrow> (string \<Rightarrow> gerr + file_view) \<Rightarrow> nat option \<Rightarrow>
    file_target list \<Rightarrow> 'w tailer \<Rightarrow> gerr option \<times> 'w tailer" where
  "Poll e lim fs cancelled targets s =
     (case cancelled of
        Some n \<Rightarrow> if n < length targets
                  then (Some Canceled, read_all e lim fs (take n targets) s)
                  else (let s = read_all e lim fs targets s; (now, w) = env_now e (tl_world s)
                        in flushExpired e now (s\<lparr>tl_world := w\<rparr>))
      | None \<Rightarrow> (let s = read_all e lim fs targets s; (now, w) = env_now e (tl_world s)
                 in flushExpired e now (s\<lparr>tl_world := w\<rparr>)))"

text \<open>\<open>Close\<close>: the map is emptied, then the records are emitted up to the first error, then
  the positions are saved.\<close>

fun close_select :: "(string \<times> pending) list \<Rightarrow> gerr + log_record list" where
  "close_select [] = Inr []"
| "close_select ((key, p) # kps) =
     (if pd_body p \<noteq> [] then
        (case prepared_pending p of
           Inl err \<Rightarrow> Inl err
         | Inr (record, p') \<Rightarrow>
             (case close_select kps of Inl err \<Rightarrow> Inl err | Inr rs \<Rightarrow> Inr (record # rs)))
      else close_select kps)"

fun emit_all :: "'w env \<Rightarrow> log_record list \<Rightarrow> 'w \<Rightarrow> gerr option \<times> 'w" where
  "emit_all e [] w = (None, w)"
| "emit_all e (r # rs) w =
     (case emitPrepared e r w of
        (Some err, w) \<Rightarrow> (Some err, w)
      | (None, w) \<Rightarrow> emit_all e rs w)"

definition Close :: "'w env \<Rightarrow> (positions \<Rightarrow> gerr + string) \<Rightarrow> io_calls \<Rightarrow> 'w tailer \<times> disk \<Rightarrow>
    gerr option \<times> 'w tailer \<times> disk" where
  "Close e marshal io sd =
     (case close_select (tl_pending (fst sd)) of
        Inl err \<Rightarrow> (Some err, sd)
      | Inr records \<Rightarrow>
          (case emit_all e records (tl_world (fst sd)) of
             (Some err, w) \<Rightarrow> (Some err, (fst sd)\<lparr>tl_pending := [], tl_world := w\<rparr>, snd sd)
           | (None, w) \<Rightarrow>
               (case Save marshal io (tl_state (fst sd), snd sd) of
                  (err, st, d) \<Rightarrow>
                    (err, (fst sd)\<lparr>tl_pending := [], tl_world := w, tl_state := st\<rparr>, d))))"

end
