(* ===== verification/Delivery.thy ===== *)
theory Delivery
  imports Tailer
begin

text \<open>
  What the tailer hands downstream.  The interface is \<open>sink\<close>: an \<open>emit\<close> that either
  accepts the record or fails and leaves what was accepted alone.  Inside it, the lines
  given to \<open>accept\<close> are followed through the pending buffers to the records accepted.
\<close>

section \<open>Lines of a body\<close>

definition nonblank :: "string list \<Rightarrow> string list" where
  "nonblank ls = filter (\<lambda>l. l \<noteq> []) ls"

definition body_lines :: "string \<Rightarrow> string list" where
  "body_lines b = nonblank (split_all newline b)"

lemma nonblank_simps [simp]:
  "nonblank [] = []" "nonblank (l # ls) = (if l = [] then nonblank ls else l # nonblank ls)"
  "nonblank (ls @ ls') = nonblank ls @ nonblank ls'"
  by (simp_all add: nonblank_def)

lemma body_lines_Nil [simp]: "body_lines [] = []"
  by (simp add: body_lines_def)

lemma body_lines_single: "newline \<notin> set l \<Longrightarrow> body_lines l = nonblank [l]"
  by (simp add: body_lines_def split_all_single)

lemma body_lines_snoc:
  "newline \<notin> set l \<Longrightarrow> body_lines (b @ newline # l) = body_lines b @ nonblank [l]"
  by (simp add: body_lines_def split_all_snoc)

section \<open>Lines without a line end\<close>

lemma encode_high:
  assumes r: "128 \<le> r" and c: "c \<in> set (encode_rune r)"
  shows "128 \<le> byte c"
proof -
  define q where "q = (if valid_rune r then r else RuneError)"
  have q: "128 \<le> q" "q < 1114112" using r by (auto simp: q_def valid_rune_def RuneError_def)
  have in_range: "128 \<le> byte (char_of m)" if "128 \<le> m" "m < 256" for m :: nat using that by simp
  have low: "128 \<le> byte (char_of (128 + x mod 64))" for x :: nat
  proof (rule in_range)
    have "x mod 64 < 64" by simp
    then show "128 + x mod 64 < 256" by linarith
  qed simp
  have "c \<in> set (if q < 2048 then [char_of (192 + q div 64), char_of (128 + q mod 64)]
      else if q < 65536 then
        [char_of (224 + q div 4096), char_of (128 + q div 64 mod 64), char_of (128 + q mod 64)]
      else [char_of (240 + q div 262144), char_of (128 + q div 4096 mod 64),
            char_of (128 + q div 64 mod 64), char_of (128 + q mod 64)])"
    using c q by (simp add: encode_rune_def q_def [symmetric])
  moreover have "128 \<le> byte (char_of (192 + q div 64))" if "q < 2048"
    using that by (intro in_range) linarith+
  moreover have "128 \<le> byte (char_of (224 + q div 4096))" if "q < 65536"
    using that by (intro in_range) linarith+
  moreover have "128 \<le> byte (char_of (240 + q div 262144))"
    using q by (intro in_range) linarith+
  ultimately show ?thesis using low by (auto split: if_splits)
qed

lemma runes_ascii_bytes: "r \<in> set (runes s) \<Longrightarrow> r < 128 \<Longrightarrow> char_of r \<in> set s"
proof -
  assume r: "r \<in> set (runes s)" "r < 128"
  then obtain bs where "(r, bs) \<in> set (chunks s)" by (auto simp: runes_def)
  with r chunks_ascii have "(r, [char_of r]) \<in> set (chunks s)" by metis
  then have "char_of r \<in> set (concat (map snd (chunks s)))" by force
  then show ?thesis by (simp only: concat_chunks)
qed

lemma newline_truncate: "newline \<notin> set l \<Longrightarrow> newline \<notin> set (truncateRunes l n)"
proof
  assume l: "newline \<notin> set l" and "newline \<in> set (truncateRunes l n)"
  then obtain r where r: "r \<in> set (take n (runes l))" "newline \<in> set (encode_rune r)"
    by (auto simp: truncateRunes_take of_runes_def)
  have "r < 128" using encode_high [of r newline] r(2) by (cases "r < 128") auto
  with r(2) have "char_of r = newline" by (simp add: encode_ascii)
  moreover have "char_of r \<in> set l"
    using r(1) \<open>r < 128\<close> by (intro runes_ascii_bytes) (auto dest: in_set_takeD)
  ultimately show False using l by simp
qed

lemma newline_cri:
  assumes "newline \<notin> set line" "cri_line e target line = (body, ts, attrs)"
  shows "newline \<notin> set body"
proof (cases "Format target = ''cri'' \<and> parseCRI (env_parse_time e) line \<noteq> None")
  case False
  with assms show ?thesis by (cases "parseCRI (env_parse_time e) line") (auto simp: cri_line_def split: if_splits)
next
  case True
  then obtain b t stream flag where q: "parseCRI (env_parse_time e) line = Some (b, t, stream, flag)"
    by (cases "parseCRI (env_parse_time e) line") auto
  from parseCRI_Some [OF this] obtain a where "line = a @ b" by (metis append.assoc)
  with assms(1) have "newline \<notin> set b" by simp
  moreover have "body = b" using assms(2) True q by (simp add: cri_line_def)
  ultimately show ?thesis by simp
qed

section \<open>The buffer\<close>

text \<open>The invariant of a pending entry: its size and line counters, the bounds on the body, and
  that only the first line of a body matches the start pattern.\<close>

definition pending_ok :: "limits \<Rightarrow> pending \<Rightarrow> bool" where
  "pending_ok lim p \<longleftrightarrow>
     pd_size p = length (pd_body p)
     \<and> length (pd_body p) \<le> 4 * lim_multiline lim
     \<and> (pd_body p \<noteq> [] \<longrightarrow> length (split_all newline (pd_body p)) \<le> min (pd_lines p) (max 1 (lim_lines lim)))
     \<and> (\<forall>re l. pd_start p = Some re \<longrightarrow> l \<in> set (tl (split_all newline (pd_body p)))
          \<longrightarrow> \<not> match_string re l)"

lemma append_line_body:
  "pd_body (append_line line ts attrs now p) =
     (if pd_body p = [] then line else pd_body p @ newline # line)"
  by (simp add: append_line_def Let_def)

lemma append_line_fields [simp]:
  "pd_start (append_line line ts attrs now p) = pd_start p"
  "pd_target (append_line line ts attrs now p) = pd_target p"
  "pd_ref (append_line line ts attrs now p) = pd_ref p"
  "pd_lines (append_line line ts attrs now p) = Suc (pd_lines p)"
  by (simp_all add: append_line_def Let_def)

lemma body_lines_append:
  "newline \<notin> set line \<Longrightarrow>
     body_lines (pd_body (append_line line ts attrs now p)) = body_lines (pd_body p) @ nonblank [line]"
  by (simp add: append_line_body body_lines_single body_lines_snoc)

lemma pending_ok_append:
  assumes ok: "pending_ok lim p" and nl: "newline \<notin> set line"
    and len: "length line \<le> 4 * lim_multiline lim"
    and limit: "pd_body p \<noteq> [] \<longrightarrow> \<not> over_limit lim p line"
    and start: "pd_body p \<noteq> [] \<longrightarrow> (\<forall>re. pd_start p = Some re \<longrightarrow> \<not> match_string re line)"
  shows "pending_ok lim (append_line line ts attrs now p)"
proof (cases "pd_body p = []")
  case True
  with ok nl len show ?thesis
    by (auto simp: pending_ok_def append_line_def Let_def split_all_single)
next
  case False
  then have s: "split_all newline (pd_body p @ newline # line) = split_all newline (pd_body p) @ [line]"
    using nl by (simp add: split_all_snoc)
  have t: "tl (split_all newline (pd_body p) @ [line]) = tl (split_all newline (pd_body p)) @ [line]"
    by (simp add: split_all_nonempty)
  from False ok limit start show ?thesis
    by (auto simp: pending_ok_def append_line_def Let_def s t over_limit_def)
qed

lemma pending_ok_reset:
  "pending_ok lim p \<Longrightarrow> pending_ok lim (p\<lparr>pd_body := [], pd_size := 0, pd_lines := 0\<rparr>)"
  by (simp add: pending_ok_def)

lemma pending_ok_attributes [simp]:
  "pending_ok lim (p\<lparr>pd_attributes := a\<rparr>) = pending_ok lim p"
  by (simp add: pending_ok_def)

section \<open>Records\<close>

text \<open>A record without its two time stamps.\<close>

definition untimed :: "log_record \<Rightarrow> log_record" where
  "untimed r = r\<lparr>Timestamp := zero_time, ObservedTimestamp := zero_time\<rparr>"

lemma untimed_fields [simp]: "Body (untimed r) = Body r" "Dropped (untimed r) = Dropped r"
  by (simp_all add: untimed_def)

lemma untimed_idem [simp]: "untimed (r\<lparr>Timestamp := a, ObservedTimestamp := b\<rparr>) = untimed r"
  by (simp add: untimed_def)

lemma untimed_Body: "untimed r = untimed r' \<Longrightarrow> Body r = Body r'"
  by (metis untimed_fields(1))

text \<open>The line \<open>accept\<close> works with, and the record of a line that is not merged.\<close>

definition line_text :: "'w env \<Rightarrow> file_target \<Rightarrow> string \<Rightarrow> string" where
  "line_text e target line = fst (cri_line e target line)"

definition merged_text :: "'w env \<Rightarrow> limits \<Rightarrow> file_target \<Rightarrow> string \<Rightarrow> string" where
  "merged_text e lim target line =
     (if lim_multiline lim < length (line_text e target line)
      then truncateRunes (line_text e target line) (lim_multiline lim) else line_text e target line)"

lemma newline_line_text: "newline \<notin> set l \<Longrightarrow> newline \<notin> set (line_text e target l)"
  unfolding line_text_def by (metis newline_cri prod.collapse)

lemma newline_merged_text: "newline \<notin> set l \<Longrightarrow> newline \<notin> set (merged_text e lim target l)"
  by (simp add: merged_text_def newline_line_text newline_truncate)

lemma length_merged_text: "length (merged_text e lim target l) \<le> 4 * lim_multiline lim"
  using truncate_length [of "line_text e target l" "lim_multiline lim"] by (simp add: merged_text_def)

lemma preparedRecord_body:
  obtains r where "preparedRecord target body ts attrs = Inr r" "Body r = body" "Timestamp r = ts"
    "Dropped r = (fst (parseSeverity body) \<in> set (DropLevels target))"
  by (rule preparedRecord_cases [of target body ts attrs]) simp

lemma prepared_pending_Inr:
  obtains r p' where "prepared_pending p = Inr (r, p')" "Body r = pd_body p"
    "Dropped r = (fst (parseSeverity (pd_body p)) \<in> set (DropLevels (pd_target p)))"
    "p' = p\<lparr>pd_attributes := pd_attributes p'\<rparr>"
proof -
  obtain r where r: "preparedRecord (pd_target p) (pd_body p) (pd_timestamp p) (pd_attributes p) = Inr r"
    "Body r = pd_body p" "Dropped r = (fst (parseSeverity (pd_body p)) \<in> set (DropLevels (pd_target p)))"
    using preparedRecord_body by blast
  then show thesis by (intro that [of r]) (auto simp: prepared_pending_def)
qed

definition buffered :: "string \<Rightarrow> (string \<times> pending) list \<Rightarrow> string list" where
  "buffered key kps =
     (case map_of kps key of None \<Rightarrow> [] | Some p \<Rightarrow> body_lines (pd_body p))"

definition buffers_ok :: "limits \<Rightarrow> (string \<times> pending) list \<Rightarrow> bool" where
  "buffers_ok lim kps \<longleftrightarrow> (\<forall>k p. map_of kps k = Some p \<longrightarrow> pending_ok lim p)"

lemma buffers_ok_set:
  "buffers_ok lim kps \<Longrightarrow> pending_ok lim p \<Longrightarrow> buffers_ok lim (map_set key p kps)"
  by (simp add: buffers_ok_def)

lemma buffers_okD: "buffers_ok lim kps \<Longrightarrow> map_of kps k = Some p \<Longrightarrow> pending_ok lim p"
  by (simp add: buffers_ok_def)

lemma buffered_set [simp]:
  "buffered key (map_set k p kps) = (if key = k then body_lines (pd_body p) else buffered key kps)"
  by (simp add: buffered_def)

text \<open>The entry of a key, if there is one, was made for the same rule.\<close>

definition same_rule :: "'w env \<Rightarrow> file_target \<Rightarrow> string \<Rightarrow> (string \<times> pending) list \<Rightarrow> bool" where
  "same_rule e target key kps \<longleftrightarrow> (\<forall>p. map_of kps key = Some p \<longrightarrow>
     DropLevels (pd_target p) = DropLevels target
     \<and> pd_start p = env_compile e (StartPattern (Multiline target)))"

text \<open>What every merged body satisfies.\<close>

definition body_ok :: "'w env \<Rightarrow> limits \<Rightarrow> file_target \<Rightarrow> string \<Rightarrow> bool" where
  "body_ok e lim target b \<longleftrightarrow>
     length b \<le> 4 * lim_multiline lim
     \<and> length (split_all newline b) \<le> max 1 (lim_lines lim)
     \<and> (\<forall>re l. env_compile e (StartPattern (Multiline target)) = Some re
          \<longrightarrow> l \<in> set (tl (split_all newline b)) \<longrightarrow> \<not> match_string re l)"

definition kept_body :: "file_target \<Rightarrow> string \<Rightarrow> bool" where
  "kept_body target b \<longleftrightarrow> fst (parseSeverity b) \<notin> set (DropLevels target)"

lemma body_ok_pending:
  assumes "pending_ok lim p" "pd_body p \<noteq> []"
    and "pd_start p = env_compile e (StartPattern (Multiline target))"
  shows "body_ok e lim target (pd_body p)"
  using assms by (auto simp: pending_ok_def body_ok_def)

text \<open>One step of merging: the bodies flushed are \<open>bs\<close>.\<close>

definition merged_step :: "'w env \<Rightarrow> limits \<Rightarrow> string \<Rightarrow> file_target \<Rightarrow> string list \<Rightarrow>
    (string \<times> pending) list \<Rightarrow> string list \<Rightarrow> (string \<times> pending) list \<Rightarrow> bool" where
  "merged_step e lim key target bs kps ls kps' \<longleftrightarrow>
     concat (map body_lines bs) @ buffered key kps' = buffered key kps @ nonblank ls
     \<and> list_all (body_ok e lim target) bs
     \<and> buffers_ok lim kps' \<and> same_rule e target key kps'
     \<and> (\<forall>j. j \<noteq> key \<longrightarrow> map_of kps' j = map_of kps j)"

lemma merged_step_trans:
  assumes "merged_step e lim key target bs kps ls kps'" "merged_step e lim key target bs' kps' ls' kps''"
  shows "merged_step e lim key target (bs @ bs') kps (ls @ ls') kps''"
proof -
  have "concat (map body_lines bs) @ concat (map body_lines bs') @ buffered key kps''
      = (buffered key kps @ nonblank ls) @ nonblank ls'"
    using assms unfolding merged_step_def by (metis append.assoc)
  with assms show ?thesis by (simp add: merged_step_def)
qed

lemma merged_step_refl:
  "buffers_ok lim kps \<Longrightarrow> same_rule e target key kps \<Longrightarrow> merged_step e lim key target [] kps [] kps"
  by (simp add: merged_step_def)

lemma merged_step_append:
  assumes p: "map_of kps' key = Some p" and others: "\<And>j. j \<noteq> key \<Longrightarrow> map_of kps' j = map_of kps j"
    and b: "buffered key kps = body_lines (pd_body p)"
    and ok: "buffers_ok lim kps'" and rule: "same_rule e target key kps'"
    and nl: "newline \<notin> set line" and len: "length line \<le> 4 * lim_multiline lim"
    and idle: "pd_body p \<noteq> [] \<Longrightarrow> \<not> over_limit lim p line
       \<and> (\<forall>re. pd_start p = Some re \<longrightarrow> \<not> match_string re line)"
  shows "merged_step e lim key target [] kps [line]
    (map_set key (append_line line ts attrs now p) kps')"
  using assms buffers_okD [OF ok p] body_lines_append [OF nl, of ts attrs now p]
  by (auto simp: merged_step_def same_rule_def intro!: buffers_ok_set pending_ok_append)

lemma merged_step_flush:
  assumes p: "map_of kps' key = Some p" and others: "\<And>j. j \<noteq> key \<Longrightarrow> map_of kps' j = map_of kps j"
    and b: "buffered key kps = body_lines (pd_body p)" and ne: "pd_body p \<noteq> []"
    and ok: "buffers_ok lim kps'" and rule: "same_rule e target key kps'"
    and nl: "newline \<notin> set line" and len: "length line \<le> 4 * lim_multiline lim"
  shows "merged_step e lim key target [pd_body p] kps [line]
    (map_set key (append_line line ts attrs now
       (p\<lparr>pd_attributes := a, pd_body := [], pd_size := 0, pd_lines := 0\<rparr>)) kps')"
proof -
  let ?q = "p\<lparr>pd_attributes := a, pd_body := [], pd_size := 0, pd_lines := 0\<rparr>"
  have "pending_ok lim ?q" using buffers_okD [OF ok p] by (simp add: pending_ok_def)
  then have "pending_ok lim (append_line line ts attrs now ?q)"
    using nl len by (intro pending_ok_append) simp_all
  moreover have "body_ok e lim target (pd_body p)"
    using buffers_okD [OF ok p] ne rule p by (intro body_ok_pending) (auto simp: same_rule_def)
  ultimately show ?thesis
    using assms body_lines_append [OF nl, of ts attrs now ?q]
    by (auto simp: merged_step_def same_rule_def intro!: buffers_ok_set)
qed

section \<open>A round of reading as a run over lines\<close>

text \<open>The complete lines of a file, what is after the last of them, and the lines one round
  takes: it stops once it has read \<open>m\<close> bytes or more.\<close>

definition complete_lines :: "string \<Rightarrow> string list" where
  "complete_lines data = butlast (split_all newline data)"

definition raw_lines :: "string list \<Rightarrow> string" where
  "raw_lines ls = concat (map (\<lambda>l. l @ [newline]) ls)"

fun budget :: "int \<Rightarrow> string list \<Rightarrow> string list" where
  "budget m [] = []"
| "budget m (l # ls) = (if 0 < m then l # budget (m - (int (length l) + 1)) ls else [])"

lemma raw_lines_simps [simp]:
  "raw_lines [] = []" "raw_lines (l # ls) = l @ newline # raw_lines ls"
  "raw_lines (ls @ ls') = raw_lines ls @ raw_lines ls'"
  by (simp_all add: raw_lines_def)

lemma split_all_Cons:
  obtains y ys where "split_all c s = y # ys" using split_all_nonempty by (cases "split_all c s") auto

lemma split_all_parts: "y \<in> set (split_all c s) \<Longrightarrow> c \<notin> set y"
proof (induction s arbitrary: y)
  case (Cons x s)
  then show ?case by (cases c s rule: split_all_Cons) (auto split: if_splits)
qed simp

lemma raw_lines_complete: "raw_lines (complete_lines s) @ last (split_all newline s) = s"
proof (induction s)
  case (Cons x s)
  then show ?case
    by (cases newline s rule: split_all_Cons) (auto simp: complete_lines_def split: if_splits)
qed (simp add: complete_lines_def)

lemma newline_complete: "l \<in> set (complete_lines s) \<Longrightarrow> newline \<notin> set l"
  unfolding complete_lines_def by (meson in_set_butlastD split_all_parts)

lemma newline_last: "newline \<notin> set (last (split_all newline s))"
  by (intro split_all_parts [of _ _ s] last_in_set split_all_nonempty)

lemma budget_prefix: "\<exists>n. budget m ls = take n ls"
proof (induction m ls rule: budget.induct)
  case (2 m l ls)
  then obtain n where "0 < m \<Longrightarrow> budget (m - (int (length l) + 1)) ls = take n ls" by blast
  then show ?case by (cases "0 < m") (auto intro: exI [of _ "Suc n"] exI [of _ 0])
qed simp

definition bounded_line :: "limits \<Rightarrow> string \<Rightarrow> string" where
  "bounded_line lim l = truncateRunes (trim_cr l) (lim_log lim)"

lemma newline_bounded: "newline \<notin> set l \<Longrightarrow> newline \<notin> set (bounded_line lim l)"
proof -
  assume "newline \<notin> set l"
  then have "newline \<notin> set (trim_cr l)"
    by (auto simp: trim_cr_def trim_suffix_single dest: in_set_butlastD)
  then show ?thesis by (simp add: bounded_line_def newline_truncate)
qed

fun accept_lines :: "'w env \<Rightarrow> limits \<Rightarrow> string \<Rightarrow> file_target \<Rightarrow> string list \<Rightarrow> 'w tailer \<Rightarrow>
    gerr option \<times> nat \<times> 'w tailer" where
  "accept_lines e lim key target [] s = (None, 0, s)"
| "accept_lines e lim key target (l # ls) s =
     (case accept e lim key target (bounded_line lim l) s of
        (Some err, s') \<Rightarrow> (Some err, 0, s')
      | (None, s') \<Rightarrow> (case accept_lines e lim key target ls s' of (err, n, s'') \<Rightarrow> (err, Suc n, s'')))"

lemma read_loop_lines:
  assumes m: "int (lim_log lim) * 4 < 2 ^ 63" and fin: "fin \<noteq> BufferFull" and part: "newline \<notin> set part"
    and nl: "\<forall>l \<in> set ls. newline \<notin> set l"
  shows "read_loop e lim key target off got off
      \<lparr>rd_data = raw_lines ls @ part, rd_size = b, rd_end = fin\<rparr> s =
    (case accept_lines e lim key target (budget (lim_read lim - got) ls) s of (err, n, s') \<Rightarrow>
       (err, off + int (length (raw_lines (take n (budget (lim_read lim - got) ls)))), s'))"
  using nl
proof (induction ls arbitrary: off got s)
  case Nil
  show ?case by (subst read_loop.simps) (simp add: readBoundedLine_partial [OF m part fin])
next
  case (Cons l ls)
  have l: "newline \<notin> set l" and ls: "\<forall>l \<in> set ls. newline \<notin> set l" using Cons.prems by simp_all
  have rb: "readBoundedLine \<lparr>rd_data = raw_lines (l # ls) @ part, rd_size = b, rd_end = fin\<rparr> (lim_log lim)
      = ((bounded_line lim l, length l + 1, True, None),
         \<lparr>rd_data = raw_lines ls @ part, rd_size = b, rd_end = fin\<rparr>)"
    by (simp add: readBoundedLine_line [OF m l] bounded_line_def)
  have e: "lim_read lim - (got + int (length l + 1)) = lim_read lim - got - (int (length l) + 1)" by simp
  show ?case
  proof (cases "got < lim_read lim")
    case False
    then show ?thesis by (subst read_loop.simps) simp
  next
    case True
    obtain err s' where a: "accept e lim key target (bounded_line lim l) s = (err, s')" by fastforce
    show ?thesis
    proof (cases err)
      case (Some x)
      with True a rb show ?thesis by (subst read_loop.simps) simp
    next
      case None
      with True a rb have "read_loop e lim key target off got off
          \<lparr>rd_data = raw_lines (l # ls) @ part, rd_size = b, rd_end = fin\<rparr> s
        = read_loop e lim key target (off + int (length l + 1)) (got + int (length l + 1))
          (off + int (length l + 1)) \<lparr>rd_data = raw_lines ls @ part, rd_size = b, rd_end = fin\<rparr> s'"
        by (subst read_loop.simps) simp
      then show ?thesis
        using True a None unfolding Cons.IH [OF ls] e by (simp split: prod.split)
    qed
  qed
qed

text \<open>The refinement: a round reads the complete lines from the start offset, gives them to
  \<open>accept\<close>, and moves the offset over the lines accepted.\<close>

lemma read_lines:
  assumes "fs (Path target) = Inr f" "fv_stat f = Inr (Some st, fsize)" "fv_end f \<noteq> BufferFull"
    and "int (lim_log lim) * 4 < 2 ^ 63"
    and "off = read_offset (Get (tl_state s) (identity_key st)) (StartAt target) fsize" "0 \<le> off"
    and "ls = budget (lim_read lim) (complete_lines (drop (nat off) (fv_data f)))"
    and "accept_lines e lim (identity_key st) target ls s = (err, n, s')"
  shows "read e lim fs target s = (err, commit_offset e (identity_key st) target
      (case Get (tl_state s) (identity_key st) of Some p \<Rightarrow> Offset p | None \<Rightarrow> 0)
      (off + int (length (raw_lines (take n ls)))) s')"
proof -
  let ?d = "drop (nat off) (fv_data f)"
  have "read_loop e lim (identity_key st) target off 0 off
      \<lparr>rd_data = raw_lines (complete_lines ?d) @ last (split_all newline ?d),
       rd_size = read_buffer_size, rd_end = fv_end f\<rparr> s =
    (err, off + int (length (raw_lines (take n ls))), s')"
    using assms(7,8) newline_complete
    by (subst read_loop_lines [OF assms(4,3) newline_last]) auto
  then have "read_loop e lim (identity_key st) target off 0 off
      (newReaderSize ?d (fv_end f) read_buffer_size) s = (err, off + int (length (raw_lines (take n ls))), s')"
    by (simp only: raw_lines_complete newReaderSize_def)
  with assms(1,2,5,6) show ?thesis by (simp add: read_def identity_def Let_def)
qed

lemma accept_lines_count:
  "accept_lines e lim key target ls s = (err, n, s') \<Longrightarrow>
     n \<le> length ls \<and> (err = None \<longleftrightarrow> n = length ls)"
proof (induction ls arbitrary: err n s s')
  case (Cons l ls)
  obtain err1 s1 where a: "accept e lim key target (bounded_line lim l) s = (err1, s1)" by fastforce
  obtain err2 n2 s2 where b: "accept_lines e lim key target ls s1 = (err2, n2, s2)" by (metis prod_cases3)
  from Cons.prems a b Cons.IH [OF b] show ?case by (cases err1) auto
qed auto

text \<open>The records of lines that are not merged, in order, without the dropped levels.\<close>

definition line_record :: "'w env \<Rightarrow> file_target \<Rightarrow> string \<Rightarrow> log_record list" where
  "line_record e target line =
     (case cri_line e target line of (body, ts, attrs) \<Rightarrow>
        (case preparedRecord target body ts attrs of
           Inl err \<Rightarrow> [] | Inr r \<Rightarrow> if Dropped r then [] else [untimed r]))"

definition line_records :: "'w env \<Rightarrow> file_target \<Rightarrow> string list \<Rightarrow> log_record list" where
  "line_records e target ls = concat (map (line_record e target) ls)"

section \<open>The interface\<close>

locale sink =
  fixes e :: "'w env" and accepted :: "'w \<Rightarrow> log_record list"
  assumes emit_accepts: "env_emit e r w = (None, w') \<Longrightarrow> accepted w' = accepted w @ [r]"
    and emit_rejects: "env_emit e r w = (Some err, w') \<Longrightarrow> accepted w' = accepted w"
    and clock_accepts: "env_now e w = (t, w') \<Longrightarrow> accepted w' = accepted w"
begin

lemma emit_result:
  assumes "env_emit e r w = (err, w')"
  shows "accepted w' = accepted w @ (if err = None then [r] else [])"
  using assms emit_accepts [of r w w'] emit_rejects [of r w _ w'] by (cases err) auto

lemma emitPrepared_result:
  assumes "emitPrepared e r w = (err, w')"
  shows "\<exists>rs. accepted w' = accepted w @ rs
    \<and> map untimed rs = (if err = None \<and> \<not> Dropped r then [untimed r] else [])"
proof (cases "Dropped r")
  case True
  with assms show ?thesis by (simp add: emitPrepared_def)
next
  case False
  obtain ts w1 where 1: "(if is_zero_time (Timestamp r) then env_now e w else (Timestamp r, w)) = (ts, w1)"
    by fastforce
  obtain obs w2 where 2: "env_now e w1 = (obs, w2)" by fastforce
  have "accepted w1 = accepted w" using 1 clock_accepts by (auto split: if_splits)
  moreover have "accepted w2 = accepted w1" using 2 clock_accepts by blast
  moreover have "env_emit e (r\<lparr>Timestamp := ts, ObservedTimestamp := obs\<rparr>) w2 = (err, w')"
    using assms False 1 2 by (simp add: emitPrepared_def)
  ultimately show ?thesis using emit_result False by fastforce
qed

lemma put_line_result:
  assumes "put_line e key line ts attrs p s = (err, s')"
  shows "err = None \<and> accepted (tl_world s') = accepted (tl_world s) \<and> tl_state s' = tl_state s
    \<and> (\<exists>now. tl_pending s' = map_set key (append_line line ts attrs now p) (tl_pending s))"
  using assms clock_accepts by (auto simp: put_line_def split: prod.splits)

lemma obtain_pending_result:
  assumes "obtain_pending e key target s = (p, s')"
  shows "accepted (tl_world s') = accepted (tl_world s)" "tl_state s' = tl_state s"
    "map_of (tl_pending s') = (map_of (tl_pending s))(key \<mapsto> p)"
    "case map_of (tl_pending s) key of
       Some q \<Rightarrow> p = q
     | None \<Rightarrow> pd_body p = [] \<and> pd_size p = 0 \<and> pd_target p = target
         \<and> pd_start p = env_compile e (StartPattern (Multiline target))"
  using assms clock_accepts
  by (auto simp: obtain_pending_def Let_def split: option.splits prod.splits)

lemma flush_body_result:
  assumes "flush_body e key p s = (err, p', s')"
  shows "tl_state s' = tl_state s
    \<and> (\<exists>a. p' = (if err = None then p\<lparr>pd_attributes := a, pd_body := [], pd_size := 0, pd_lines := 0\<rparr>
                else p\<lparr>pd_attributes := a\<rparr>)
        \<and> tl_pending s' = (if err = None then tl_pending s else map_set key p' (tl_pending s)))
    \<and> (\<exists>rs. accepted (tl_world s') = accepted (tl_world s) @ rs \<and> map Body rs =
          (if err = None \<and> kept_body (pd_target p) (pd_body p) then [pd_body p] else []))"
proof -
  obtain r q where r: "prepared_pending p = Inr (r, q)" "Body r = pd_body p"
    "Dropped r = (fst (parseSeverity (pd_body p)) \<in> set (DropLevels (pd_target p)))"
    "q = p\<lparr>pd_attributes := pd_attributes q\<rparr>" by (rule prepared_pending_Inr)
  obtain err' w where em: "emitPrepared e r (tl_world s) = (err', w)" by fastforce
  obtain rs where rs: "accepted w = accepted (tl_world s) @ rs"
    "map untimed rs = (if err' = None \<and> \<not> Dropped r then [untimed r] else [])"
    using emitPrepared_result [OF em] by blast
  have e: "err' = err" using assms r(1) em by (auto simp: flush_body_def split: option.splits)
  have "map Body rs = (if err = None \<and> kept_body (pd_target p) (pd_body p) then [pd_body p] else [])"
    using rs(2) r(2,3) e by (auto simp: kept_body_def dest!: untimed_Body split: if_splits)
  with assms r(1,4) em rs(1) e show ?thesis
    by (cases err) (auto simp: flush_body_def intro: exI [of _ "pd_attributes q"])
qed

text \<open>One line of a merged file, after the entry has been found.\<close>

lemma accept_entry:
  assumes acc: "accept e lim key target line s = (err, s')"
    and sp: "StartPattern (Multiline target) \<noteq> []"
    and p: "obtain_pending e key target s = (p, s1)"
    and ln: "ln = merged_text e lim target line"
  obtains (panic) "pd_start p = None" "err \<noteq> None" "s' = s1"
  | (append) ts attrs start where "pd_start p = Some start"
      "pd_body p \<noteq> [] \<Longrightarrow> \<not> match_string start ln \<and> \<not> over_limit lim p ln"
      "put_line e key ln ts attrs p s1 = (err, s')"
  | (reject) q where "flush_body e key p s1 = (err, q, s')" "err \<noteq> None" "pd_body p \<noteq> []"
  | (flush) ts attrs q s2 where "pd_body p \<noteq> []" "flush_body e key p s1 = (None, q, s2)"
      "put_line e key ln ts attrs q s2 = (err, s')"
proof -
  obtain tx ts attrs where cri: "cri_line e target line = (tx, ts, attrs)"
    using prod_cases3 by blast
  have l: "(if lim_multiline lim < length tx then truncateRunes tx (lim_multiline lim) else tx) = ln"
    by (simp add: ln merged_text_def line_text_def cri)
  obtain e2 q s2 where fl: "flush_body e key p s1 = (e2, q, s2)" by (metis prod_cases3)
  from acc sp p have a: "(case pd_start p of None \<Rightarrow> (Some (Panic ''nil *Regexp''), s1)
     | Some start \<Rightarrow> if (match_string start ln \<or> over_limit lim p ln) \<and> pd_body p \<noteq> []
        then (case flush_body e key p s1 of (Some err, p, s) \<Rightarrow> (Some err, s)
              | (None, p, s) \<Rightarrow> put_line e key ln ts attrs p s)
        else put_line e key ln ts attrs p s1) = (err, s')"
    unfolding l [symmetric] by (simp add: accept_def cri Let_def)
  show thesis
  proof (cases "pd_start p")
    case None
    with a show thesis by (intro panic) auto
  next
    case (Some start)
    show thesis
    proof (cases "(match_string start ln \<or> over_limit lim p ln) \<and> pd_body p \<noteq> []")
      case False
      with a Some show thesis by (intro append [of start ts attrs]) auto
    next
      case True
      with a Some fl show thesis
        by (cases e2) (auto intro: reject flush [of q s2 ts attrs])
    qed
  qed
qed

lemma accept_merged:
  assumes acc: "accept e lim key target line s = (err, s')"
    and sp: "StartPattern (Multiline target) \<noteq> []" and nl: "newline \<notin> set line"
    and ok: "buffers_ok lim (tl_pending s)" and rule: "same_rule e target key (tl_pending s)"
  shows "\<exists>rs bs. accepted (tl_world s') = accepted (tl_world s) @ rs
    \<and> map Body rs = filter (kept_body target) bs \<and> tl_state s' = tl_state s
    \<and> merged_step e lim key target bs (tl_pending s)
        (if err = None then [merged_text e lim target line] else []) (tl_pending s')
    \<and> (err \<noteq> None \<longrightarrow> bs = [])"
proof -
  define ln where "ln = merged_text e lim target line"
  obtain p s1 where p: "obtain_pending e key target s = (p, s1)" by fastforce
  note s1 = obtain_pending_result [OF p]
  have b: "buffered key (tl_pending s) = body_lines (pd_body p)"
    using s1(4) by (auto simp: buffered_def split: option.splits)
  have others: "\<And>j. j \<noteq> key \<Longrightarrow> map_of (tl_pending s1) j = map_of (tl_pending s) j"
    and pk: "map_of (tl_pending s1) key = Some p" using s1(3) by simp_all
  have "pending_ok lim p"
    using s1(4) ok buffers_okD [OF ok, of key p]
    by (cases "map_of (tl_pending s) key") (auto simp: pending_ok_def)
  then have ok1: "buffers_ok lim (tl_pending s1)" using ok s1(3) by (auto simp: buffers_ok_def)
  have rule1: "same_rule e target key (tl_pending s1)"
    using s1(3,4) rule by (auto simp: same_rule_def split: option.splits)
  have nl': "newline \<notin> set ln" and len: "length ln \<le> 4 * lim_multiline lim"
    using nl by (simp_all add: ln_def newline_merged_text length_merged_text)
  have kept: "kept_body (pd_target p) = kept_body target"
    using rule1 pk by (auto simp: same_rule_def kept_body_def)
  note facts = pk others b ok1 rule1 nl' len
  from acc sp p ln_def show ?thesis
  proof (cases rule: accept_entry)
    case panic
    with s1(1,2) b others ok1 rule1 pk show ?thesis
      by (intro exI [of _ "[]"]) (auto simp: merged_step_def buffered_def)
  next
    case (append ts attrs start)
    from put_line_result [OF append(3)] show ?thesis
      using s1(1,2) append(1,2) merged_step_append [OF facts]
      by (intro exI [of _ "[]"]) (auto simp: ln_def)
  next
    case (reject q)
    from flush_body_result [OF reject(1)] reject(2) s1(1,2) facts buffers_okD [OF ok1 pk] show ?thesis
      by (intro exI [of _ "[]"]) (auto simp: merged_step_def same_rule_def intro!: buffers_ok_set)
  next
    case (flush ts attrs q s2)
    from flush_body_result [OF flush(2)] obtain a rs where f:
      "tl_state s2 = tl_state s1" "tl_pending s2 = tl_pending s1"
      "q = p\<lparr>pd_attributes := a, pd_body := [], pd_size := 0, pd_lines := 0\<rparr>"
      "accepted (tl_world s2) = accepted (tl_world s1) @ rs"
      "map Body rs = filter (kept_body target) [pd_body p]" by (auto simp: kept)
    with put_line_result [OF flush(3)] s1(1,2) merged_step_flush [OF pk others b flush(1) ok1 rule1 nl' len]
    show ?thesis by (intro exI [of _ rs] exI [of _ "[pd_body p]"]) (auto simp: ln_def)
  qed
qed

text \<open>A run over lines of a merged file, and of a file whose lines are records of their own.\<close>

lemma accept_lines_merged:
  assumes "accept_lines e lim key target ls s = (err, n, s')"
    and "StartPattern (Multiline target) \<noteq> []" and "\<forall>l \<in> set ls. newline \<notin> set l"
    and "buffers_ok lim (tl_pending s)" and "same_rule e target key (tl_pending s)"
  shows "\<exists>rs bs. accepted (tl_world s') = accepted (tl_world s) @ rs
    \<and> map Body rs = filter (kept_body target) bs \<and> tl_state s' = tl_state s
    \<and> merged_step e lim key target bs (tl_pending s)
        (map (\<lambda>l. merged_text e lim target (bounded_line lim l)) (take n ls)) (tl_pending s')"
  using assms
proof (induction ls arbitrary: s n)
  case Nil
  then show ?case by (intro exI [of _ "[]"]) (auto intro: merged_step_refl)
next
  case (Cons l ls)
  obtain err1 s1 where a: "accept e lim key target (bounded_line lim l) s = (err1, s1)" by fastforce
  obtain err2 n2 s2 where b: "accept_lines e lim key target ls s1 = (err2, n2, s2)" by (metis prod_cases3)
  have "newline \<notin> set (bounded_line lim l)" using Cons.prems(3) by (simp add: newline_bounded)
  from accept_merged [OF a Cons.prems(2) this Cons.prems(4,5)]
  obtain rs bs where 1: "accepted (tl_world s1) = accepted (tl_world s) @ rs"
    "map Body rs = filter (kept_body target) bs" "tl_state s1 = tl_state s"
    "merged_step e lim key target bs (tl_pending s)
      (if err1 = None then [merged_text e lim target (bounded_line lim l)] else []) (tl_pending s1)"
    by blast
  show ?case
  proof (cases err1)
    case (Some x)
    with Cons.prems(1) a 1 show ?thesis by auto
  next
    case None
    with Cons.prems(1) a b have r: "err = err2" "n = Suc n2" "s' = s2" by simp_all
    have "buffers_ok lim (tl_pending s1)" "same_rule e target key (tl_pending s1)"
      using 1(4) by (simp_all add: merged_step_def)
    with Cons.IH [of s1 n2] Cons.prems(2,3) b r obtain rs' bs' where 2:
      "accepted (tl_world s') = accepted (tl_world s1) @ rs'"
      "map Body rs' = filter (kept_body target) bs'" "tl_state s' = tl_state s1"
      "merged_step e lim key target bs' (tl_pending s1)
        (map (\<lambda>l. merged_text e lim target (bounded_line lim l)) (take n2 ls)) (tl_pending s')"
      by auto
    with 1 None r merged_step_trans [OF 1(4) 2(4)] show ?thesis
      by (intro exI [of _ "rs @ rs'"] exI [of _ "bs @ bs'"]) simp
  qed
qed

lemma accept_single:
  assumes acc: "accept e lim key target line s = (err, s')"
    and sp: "StartPattern (Multiline target) = []"
  shows "\<exists>rs. accepted (tl_world s') = accepted (tl_world s) @ rs
    \<and> map untimed rs = (if err = None then line_records e target [line] else [])
    \<and> tl_state s' = tl_state s \<and> tl_pending s' = tl_pending s"
proof -
  obtain tx ts attrs where cri: "cri_line e target line = (tx, ts, attrs)"
    using prod_cases3 by blast
  obtain r where r: "preparedRecord target tx ts attrs = Inr r" by (rule preparedRecord_body)
  obtain err' w where em: "emitPrepared e r (tl_world s) = (err', w)" by fastforce
  with acc sp cri r have "err = err'" "s' = s\<lparr>tl_world := w\<rparr>"
    by (simp_all add: accept_def emitRecord_def)
  moreover have "line_records e target [line] = (if Dropped r then [] else [untimed r])"
    by (simp add: line_records_def line_record_def cri r)
  ultimately show ?thesis using emitPrepared_result [OF em] by auto
qed

lemma accept_lines_single:
  assumes "accept_lines e lim key target ls s = (err, n, s')"
    and "StartPattern (Multiline target) = []"
  shows "\<exists>rs. accepted (tl_world s') = accepted (tl_world s) @ rs
    \<and> map untimed rs = line_records e target (map (bounded_line lim) (take n ls))
    \<and> tl_state s' = tl_state s \<and> tl_pending s' = tl_pending s"
  using assms
proof (induction ls arbitrary: s n)
  case Nil
  then show ?case by (auto simp: line_records_def)
next
  case (Cons l ls)
  obtain err1 s1 where a: "accept e lim key target (bounded_line lim l) s = (err1, s1)" by fastforce
  obtain err2 n2 s2 where b: "accept_lines e lim key target ls s1 = (err2, n2, s2)" by (metis prod_cases3)
  from accept_single [OF a Cons.prems(2)] obtain rs where 1:
    "accepted (tl_world s1) = accepted (tl_world s) @ rs"
    "map untimed rs = (if err1 = None then line_records e target [bounded_line lim l] else [])"
    "tl_state s1 = tl_state s" "tl_pending s1 = tl_pending s" by blast
  show ?case
  proof (cases err1)
    case (Some x)
    with Cons.prems(1) a 1 show ?thesis by (auto simp: line_records_def)
  next
    case None
    with Cons.prems(1) a b have r: "err = err2" "n = Suc n2" "s' = s2" by simp_all
    with Cons.IH [of s1 n2] Cons.prems(2) b obtain rs' where
      "accepted (tl_world s') = accepted (tl_world s1) @ rs'"
      "map untimed rs' = line_records e target (map (bounded_line lim) (take n2 ls))"
      "tl_state s' = tl_state s1" "tl_pending s' = tl_pending s1" by auto
    with 1 None r show ?thesis
      by (intro exI [of _ "rs @ rs'"]) (simp add: line_records_def)
  qed
qed

end

section \<open>A round\<close>

text \<open>What one round reads: the offset it starts at, the lines it takes, and the offset after
  \<open>n\<close> of them.\<close>

definition start_offset :: "store \<Rightarrow> stat_t \<Rightarrow> file_target \<Rightarrow> int \<Rightarrow> int" where
  "start_offset st info target fsize = read_offset (Get st (identity_key info)) (StartAt target) fsize"

definition round_lines :: "limits \<Rightarrow> int \<Rightarrow> string \<Rightarrow> string list" where
  "round_lines lim off data = budget (lim_read lim) (complete_lines (drop (nat off) data))"

definition offset_after :: "int \<Rightarrow> string list \<Rightarrow> nat \<Rightarrow> int" where
  "offset_after off ls n = off + int (length (raw_lines (take n ls)))"

definition stored_offset :: "store \<Rightarrow> string \<Rightarrow> int" where
  "stored_offset st key = (case Get st key of Some p \<Rightarrow> Offset p | None \<Rightarrow> 0)"

text \<open>The file can be read: it is there, it has an identity, and the read error, if any, is not
  the one the reader uses itself.\<close>

definition readable :: "(string \<Rightarrow> gerr + file_view) \<Rightarrow> file_target \<Rightarrow> stat_t \<Rightarrow> int \<Rightarrow> string \<Rightarrow> bool" where
  "readable fs target info fsize data \<longleftrightarrow>
     (\<exists>fin. fs (Path target) = Inr \<lparr>fv_stat = Inr (Some info, fsize), fv_data = data, fv_end = fin\<rparr>
        \<and> fin \<noteq> BufferFull)"

definition small_limit :: "limits \<Rightarrow> bool" where
  "small_limit lim \<longleftrightarrow> int (lim_log lim) * 4 < 2 ^ 63"

lemma read_round:
  assumes "readable fs target info fsize data" "small_limit lim" "0 \<le> start_offset (tl_state s) info target fsize"
  obtains err n s1 where
    "accept_lines e lim (identity_key info) target
       (round_lines lim (start_offset (tl_state s) info target fsize) data) s = (err, n, s1)"
    "read e lim fs target s = (err, commit_offset e (identity_key info) target
       (stored_offset (tl_state s) (identity_key info))
       (offset_after (start_offset (tl_state s) info target fsize)
          (round_lines lim (start_offset (tl_state s) info target fsize) data) n) s1)"
proof -
  let ?off = "start_offset (tl_state s) info target fsize"
  obtain err n s1 where a: "accept_lines e lim (identity_key info) target (round_lines lim ?off data) s = (err, n, s1)"
    by (metis prod_cases3)
  obtain fin where "fs (Path target) = Inr \<lparr>fv_stat = Inr (Some info, fsize), fv_data = data, fv_end = fin\<rparr>"
    "fin \<noteq> BufferFull" using assms(1) by (auto simp: readable_def)
  then have "read e lim fs target s = (err, commit_offset e (identity_key info) target
      (case Get (tl_state s) (identity_key info) of Some p \<Rightarrow> Offset p | None \<Rightarrow> 0)
      (?off + int (length (raw_lines (take n (round_lines lim ?off data))))) s1)"
    using assms(2,3) a unfolding small_limit_def
    by (intro read_lines [where f = "\<lparr>fv_stat = Inr (Some info, fsize), fv_data = data, fv_end = fin\<rparr>"
          and fsize = fsize]) (simp_all add: start_offset_def round_lines_def)
  then show thesis using a by (intro that) (simp_all add: stored_offset_def offset_after_def)
qed

lemma commit_offset_fields:
  "tl_pending (commit_offset e key target i c s) = tl_pending s"
  "j \<noteq> key \<Longrightarrow> Get (tl_state (commit_offset e key target i c s)) j = Get (tl_state s) j"
  by (auto simp: commit_offset_def Get_Set_other split: prod.split)

lemma commit_offset_place:
  "map_option place (Get (tl_state (commit_offset e key target i c s)) key) =
     (if c = i then map_option place (Get (tl_state s) key) else Some (Path target, c))"
proof (cases "c = i")
  case False
  obtain t w where "env_now e (tl_world s) = (t, w)" by fastforce
  with False table.get_same [of key "\<lparr>PosPath = Path target, Offset = c, UpdatedAt = t\<rparr>" "tl_state s"]
  show ?thesis by (simp add: commit_offset_def place_def)
qed (simp add: commit_offset_def)

text \<open>After a round the offset is the one after the accepted lines (0 stands for no entry).\<close>

lemma stored_offset_commit:
  "tl_state s1 = st \<Longrightarrow>
     stored_offset (tl_state (commit_offset e key target (stored_offset st key) c s1)) key = c"
  using commit_offset_place [of e key target "stored_offset st key" c s1]
  by (auto simp: stored_offset_def place_def split: option.splits if_splits)

context sink
begin

lemma commit_offset_accepted:
  "accepted (tl_world (commit_offset e key target i c s)) = accepted (tl_world s)"
  using clock_accepts by (auto simp: commit_offset_def split: prod.split)

lemma read_merged:
  assumes "readable fs target info fsize data" "small_limit lim"
    and "0 \<le> start_offset (tl_state s) info target fsize"
    and "StartPattern (Multiline target) \<noteq> []"
    and "buffers_ok lim (tl_pending s)" "same_rule e target (identity_key info) (tl_pending s)"
    and "read e lim fs target s = (err, s')"
    and "off = start_offset (tl_state s) info target fsize" "ls = round_lines lim off data"
  shows "\<exists>n rs bs. n \<le> length ls \<and> (err = None \<longleftrightarrow> n = length ls)
    \<and> accepted (tl_world s') = accepted (tl_world s) @ rs
    \<and> map Body rs = filter (kept_body target) bs
    \<and> merged_step e lim (identity_key info) target bs (tl_pending s)
        (map (\<lambda>l. merged_text e lim target (bounded_line lim l)) (take n ls)) (tl_pending s')
    \<and> stored_offset (tl_state s') (identity_key info) = offset_after off ls n"
proof -
  from read_round [OF assms(1-3), of e] assms(7,8,9) obtain n s1 where
    a: "accept_lines e lim (identity_key info) target ls s = (err, n, s1)"
    and s': "s' = commit_offset e (identity_key info) target
       (stored_offset (tl_state s) (identity_key info)) (offset_after off ls n) s1" by auto
  have nl: "\<forall>l \<in> set ls. newline \<notin> set l"
    using assms(9) budget_prefix newline_complete unfolding round_lines_def by (metis in_set_takeD)
  from accept_lines_merged [OF a assms(4) nl assms(5,6)] obtain rs bs where
    "accepted (tl_world s1) = accepted (tl_world s) @ rs"
    "map Body rs = filter (kept_body target) bs" "tl_state s1 = tl_state s"
    "merged_step e lim (identity_key info) target bs (tl_pending s)
      (map (\<lambda>l. merged_text e lim target (bounded_line lim l)) (take n ls)) (tl_pending s1)" by blast
  with accept_lines_count [OF a] s' show ?thesis
    by (intro exI [of _ n] exI [of _ rs] exI [of _ bs])
       (simp add: commit_offset_accepted commit_offset_fields stored_offset_commit)
qed

text \<open>A line that starts a body is only buffered.\<close>

lemma accept_first:
  assumes acc: "accept e lim key target line s = (err, s')"
    and sp: "StartPattern (Multiline target) \<noteq> []" "env_compile e (StartPattern (Multiline target)) = Some re"
    and nl: "newline \<notin> set line" and none: "map_of (tl_pending s) key = None"
  shows "err = None \<and> accepted (tl_world s') = accepted (tl_world s) \<and> tl_state s' = tl_state s
    \<and> buffered key (tl_pending s') = nonblank [merged_text e lim target line]"
proof -
  define ln where "ln = merged_text e lim target line"
  obtain p s1 where p: "obtain_pending e key target s = (p, s1)" by fastforce
  note s1 = obtain_pending_result [OF p]
  have q: "pd_body p = []" "pd_start p = Some re" using s1(4) none sp(2) by simp_all
  from acc sp(1) p ln_def show ?thesis
  proof (cases rule: accept_entry)
    case (append ts attrs start)
    have "newline \<notin> set ln" using nl by (simp add: ln_def newline_merged_text)
    with put_line_result [OF append(3)] s1(1,2) q body_lines_append [of ln] show ?thesis
      by (auto simp: buffered_def ln_def)
  qed (use q in simp_all)
qed

lemma read_first:
  assumes "readable fs target info fsize data" "small_limit lim"
    and "0 \<le> start_offset (tl_state s) info target fsize"
    and "StartPattern (Multiline target) \<noteq> []" "env_compile e (StartPattern (Multiline target)) = Some re"
    and "map_of (tl_pending s) (identity_key info) = None"
    and "read e lim fs target s = (err, s')"
    and "off = start_offset (tl_state s) info target fsize" "round_lines lim off data = [l]"
  shows "err = None \<and> accepted (tl_world s') = accepted (tl_world s)
    \<and> stored_offset (tl_state s') (identity_key info) = off + int (length l) + 1
    \<and> buffered (identity_key info) (tl_pending s') = nonblank [merged_text e lim target (bounded_line lim l)]"
proof -
  from read_round [OF assms(1-3), of e] assms(7,8,9) obtain n s1 where
    a: "accept_lines e lim (identity_key info) target [l] s = (err, n, s1)"
    and s': "s' = commit_offset e (identity_key info) target
       (stored_offset (tl_state s) (identity_key info)) (offset_after off [l] n) s1" by auto
  obtain err1 s2 where acc: "accept e lim (identity_key info) target (bounded_line lim l) s = (err1, s2)" by fastforce
  have "l \<in> set (complete_lines (drop (nat off) data))"
    using assms(9) budget_prefix [of "lim_read lim" "complete_lines (drop (nat off) data)"]
    unfolding round_lines_def by (metis in_set_takeD list.set_intros(1))
  then have nl: "newline \<notin> set (bounded_line lim l)" by (intro newline_bounded newline_complete)
  note f = accept_first [OF acc assms(4,5) nl assms(6)]
  with a acc have r: "err = None" "n = 1" "s1 = s2" by simp_all
  with f s' show ?thesis
    by (simp add: commit_offset_accepted commit_offset_fields stored_offset_commit offset_after_def)
qed

lemma read_single:
  assumes "readable fs target info fsize data" "small_limit lim"
    and "0 \<le> start_offset (tl_state s) info target fsize"
    and "StartPattern (Multiline target) = []"
    and "read e lim fs target s = (err, s')"
    and "off = start_offset (tl_state s) info target fsize" "ls = round_lines lim off data"
  shows "\<exists>n rs. n \<le> length ls \<and> (err = None \<longleftrightarrow> n = length ls)
    \<and> accepted (tl_world s') = accepted (tl_world s) @ rs
    \<and> map untimed rs = line_records e target (map (bounded_line lim) (take n ls))
    \<and> tl_pending s' = tl_pending s
    \<and> stored_offset (tl_state s') (identity_key info) = offset_after off ls n"
proof -
  from read_round [OF assms(1-3), of e] assms(5,6,7) obtain n s1 where
    a: "accept_lines e lim (identity_key info) target ls s = (err, n, s1)"
    and s': "s' = commit_offset e (identity_key info) target
       (stored_offset (tl_state s) (identity_key info)) (offset_after off ls n) s1" by auto
  from accept_lines_single [OF a assms(4)] obtain rs where
    "accepted (tl_world s1) = accepted (tl_world s) @ rs"
    "map untimed rs = line_records e target (map (bounded_line lim) (take n ls))"
    "tl_state s1 = tl_state s" "tl_pending s1 = tl_pending s" by blast
  with accept_lines_count [OF a] s' show ?thesis
    by (intro exI [of _ n] exI [of _ rs])
       (simp add: commit_offset_accepted commit_offset_fields stored_offset_commit)
qed

end

end
