(* ===== verification/Flushing.thy ===== *)
theory Flushing
  imports Delivery
begin

text \<open>
  The end of a body's life in the buffer: the timed flush of a round and \<open>Close\<close>.  Each
  buffered body is emitted once, in the order of the map; the entries of the bodies that were
  emitted are removed and no other.
\<close>

section \<open>Selecting\<close>

definition due :: "time \<Rightarrow> string \<times> pending \<Rightarrow> bool" where
  "due now kp \<longleftrightarrow> flush_after (snd kp) \<le> now - pd_updated (snd kp) \<and> pd_body (snd kp) \<noteq> []"

definition entry_view :: "string \<times> pending \<Rightarrow> string \<times> nat \<times> string" where
  "entry_view kp = (fst kp, pd_ref (snd kp), pd_body (snd kp))"

definition expired_view :: "expired \<Rightarrow> (string \<times> nat \<times> string) \<times> bool" where
  "expired_view x = ((xp_key x, xp_ref x, Body (xp_record x)), \<not> Dropped (xp_record x))"

definition kept_entry :: "string \<times> pending \<Rightarrow> bool" where
  "kept_entry kp = kept_body (pd_target (snd kp)) (pd_body (snd kp))"

lemma view_simps:
  "due now (k, p) \<longleftrightarrow> flush_after p \<le> now - pd_updated p \<and> pd_body p \<noteq> []"
  "entry_view (k, p) = (k, pd_ref p, pd_body p)"
  "expired_view \<lparr>xp_key = k, xp_ref = r, xp_record = rc\<rparr> = ((k, r, Body rc), \<not> Dropped rc)"
  "kept_entry (k, p) = kept_body (pd_target p) (pd_body p)"
  by (simp_all add: due_def entry_view_def expired_view_def kept_entry_def)

lemma flush_select_view:
  "\<exists>xs kps'. flush_select now kps = (None, xs, kps')
     \<and> map expired_view xs = map (\<lambda>kp. (entry_view kp, kept_entry kp)) (filter (due now) kps)
     \<and> map entry_view kps' = map entry_view kps"
proof (induction kps)
  case (Cons kp kps)
  then obtain xs kps' where IH: "flush_select now kps = (None, xs, kps')"
    "map expired_view xs = map (\<lambda>kp. (entry_view kp, kept_entry kp)) (filter (due now) kps)"
    "map entry_view kps' = map entry_view kps" by blast
  obtain key p where kp: "kp = (key, p)" by (cases kp)
  obtain r p' where r: "prepared_pending p = Inr (r, p')" "Body r = pd_body p"
    "Dropped r = (fst (parseSeverity (pd_body p)) \<in> set (DropLevels (pd_target p)))"
    "p' = p\<lparr>pd_attributes := pd_attributes p'\<rparr>" by (rule prepared_pending_Inr)
  have "entry_view (key, p') = entry_view (key, p)"
    by (subst r(4)) (simp add: entry_view_def)
  with kp r(1-3) IH show ?case
    by (auto simp: view_simps kept_body_def)
qed simp

lemma close_select_bodies:
  "\<exists>rs. close_select kps = Inr rs
     \<and> map (\<lambda>r. (Body r, \<not> Dropped r)) rs
       = map (\<lambda>kp. (pd_body (snd kp), kept_entry kp)) (filter (\<lambda>kp. pd_body (snd kp) \<noteq> []) kps)"
proof (induction kps)
  case (Cons kp kps)
  then obtain rs where IH: "close_select kps = Inr rs"
    "map (\<lambda>r. (Body r, \<not> Dropped r)) rs
       = map (\<lambda>kp. (pd_body (snd kp), kept_entry kp)) (filter (\<lambda>kp. pd_body (snd kp) \<noteq> []) kps)" by blast
  obtain key p where kp: "kp = (key, p)" by (cases kp)
  obtain r p' where "prepared_pending p = Inr (r, p')" "Body r = pd_body p"
    "Dropped r = (fst (parseSeverity (pd_body p)) \<in> set (DropLevels (pd_target p)))"
    by (rule prepared_pending_Inr)
  with kp IH show ?case by (auto simp: view_simps kept_body_def)
qed simp

lemma entry_view_lookup:
  "map_of (map entry_view kps) k = map_option (\<lambda>p. (pd_ref p, pd_body p)) (map_of kps k)"
  by (induction kps) (auto simp: entry_view_def)

lemma drop_entry_filter:
  assumes "map_option pd_ref (map_of kps (xp_key x)) = Some (xp_ref x)"
  shows "drop_entry x kps = filter (\<lambda>kp. fst kp \<noteq> xp_key x) kps"
  using assms by (simp add: drop_entry_def delete_filter)

lemma map_of_filter_key: "map_of (filter (\<lambda>kp. fst kp \<noteq> k) kps) j = (if j = k then None else map_of kps j)"
  by (induction kps) auto

text \<open>The selected records belong to entries that are in the map, one for each key.\<close>

lemma select_keys:
  assumes ok: "map_ok kps"
    and sel: "map expired_view xs = map (\<lambda>kp. (entry_view kp, kept_entry kp)) (filter (due now) kps)"
    and same: "map entry_view kps' = map entry_view kps"
  shows "map xp_key xs = map fst (filter (due now) kps)" (is ?keys)
    and "distinct (map xp_key xs)"
    and "\<forall>x \<in> set xs. map_option pd_ref (map_of kps' (xp_key x)) = Some (xp_ref x)"
proof -
  have "map (fst \<circ> fst) (map expired_view xs) = map xp_key xs"
    by (simp add: expired_view_def)
  then show keys: ?keys unfolding sel by (simp add: entry_view_def o_def)
  show "distinct (map xp_key xs)"
    unfolding keys using ok by (simp add: map_ok_def distinct_map_filter)
  show "\<forall>x \<in> set xs. map_option pd_ref (map_of kps' (xp_key x)) = Some (xp_ref x)"
  proof
    fix x assume "x \<in> set xs"
    then have "expired_view x \<in> set (map (\<lambda>kp. (entry_view kp, kept_entry kp)) (filter (due now) kps))"
      by (simp only: sel [symmetric]) simp
    then obtain k p where kp: "(k, p) \<in> set kps" "expired_view x = (entry_view (k, p), kept_entry (k, p))"
      by auto
    then have "map_of kps k = Some p" "xp_key x = k" "xp_ref x = pd_ref p"
      using ok by (simp_all add: map_ok_def expired_view_def entry_view_def)
    then have "map_of (map entry_view kps') (xp_key x) = Some (xp_ref x, pd_body p)"
      by (simp only: same entry_view_lookup) simp
    then show "map_option pd_ref (map_of kps' (xp_key x)) = Some (xp_ref x)"
      unfolding entry_view_lookup by auto
  qed
qed

section \<open>Emitting\<close>

context sink
begin

lemma flush_emit_result:
  assumes "flush_emit e xs s = (err, s')" "distinct (map xp_key xs)"
    and "\<forall>x \<in> set xs. map_option pd_ref (map_of (tl_pending s) (xp_key x)) = Some (xp_ref x)"
  shows "\<exists>n rs. n \<le> length xs \<and> (err = None \<longleftrightarrow> n = length xs)
    \<and> tl_state s' = tl_state s
    \<and> tl_pending s' = filter (\<lambda>kp. fst kp \<notin> xp_key ` set (take n xs)) (tl_pending s)
    \<and> accepted (tl_world s') = accepted (tl_world s) @ rs
    \<and> map untimed rs = map untimed (filter (\<lambda>r. \<not> Dropped r) (map xp_record (take n xs)))"
  using assms
proof (induction xs arbitrary: s)
  case (Cons x xs)
  obtain err1 w where em: "emitPrepared e (xp_record x) (tl_world s) = (err1, w)" by fastforce
  obtain rs where rs: "accepted w = accepted (tl_world s) @ rs"
    "map untimed rs = (if err1 = None \<and> \<not> Dropped (xp_record x) then [untimed (xp_record x)] else [])"
    using emitPrepared_result [OF em] by blast
  show ?case
  proof (cases err1)
    case (Some y)
    with Cons.prems(1) em rs show ?thesis by (intro exI [of _ 0]) auto
  next
    case None
    let ?s = "s\<lparr>tl_pending := drop_entry x (tl_pending s), tl_world := w\<rparr>"
    have d: "tl_pending ?s = filter (\<lambda>kp. fst kp \<noteq> xp_key x) (tl_pending s)"
      using Cons.prems(3) by (simp add: drop_entry_filter)
    have "flush_emit e xs ?s = (err, s')" using Cons.prems(1) em None by simp
    moreover have "\<forall>z \<in> set xs. map_option pd_ref (map_of (tl_pending ?s) (xp_key z)) = Some (xp_ref z)"
    proof
      fix z assume z: "z \<in> set xs"
      then have "xp_key z \<noteq> xp_key x" using Cons.prems(2) by (auto simp: image_iff)
      with z Cons.prems(3) show "map_option pd_ref (map_of (tl_pending ?s) (xp_key z)) = Some (xp_ref z)"
        by (simp add: d map_of_filter_key)
    qed
    ultimately obtain n rs' where n: "n \<le> length xs" "(err = None) = (n = length xs)"
      "tl_state s' = tl_state s"
      "tl_pending s' = filter (\<lambda>kp. fst kp \<notin> xp_key ` set (take n xs)) (tl_pending ?s)"
      "accepted (tl_world s') = accepted w @ rs'"
      "map untimed rs' = map untimed (filter (\<lambda>r. \<not> Dropped r) (map xp_record (take n xs)))"
      using Cons.IH [of ?s] Cons.prems(2) by auto
    have "tl_pending s' = filter (\<lambda>kp. fst kp \<notin> xp_key ` set (take (Suc n) (x # xs))) (tl_pending s)"
      unfolding n(4) d filter_filter by (rule filter_cong) auto
    with n rs None show ?thesis
      by (intro exI [of _ "Suc n"] exI [of _ "rs @ rs'"]) simp
  qed
qed simp

lemma emit_all_result:
  assumes "emit_all e rs w = (err, w')"
  shows "\<exists>n out. n \<le> length rs \<and> (err = None \<longleftrightarrow> n = length rs)
    \<and> accepted w' = accepted w @ out
    \<and> map untimed out = map untimed (filter (\<lambda>r. \<not> Dropped r) (take n rs))"
  using assms
proof (induction rs arbitrary: w)
  case (Cons r rs)
  obtain err1 w1 where em: "emitPrepared e r w = (err1, w1)" by fastforce
  obtain out where out: "accepted w1 = accepted w @ out"
    "map untimed out = (if err1 = None \<and> \<not> Dropped r then [untimed r] else [])"
    using emitPrepared_result [OF em] by blast
  show ?case
  proof (cases err1)
    case (Some y)
    with Cons.prems em out show ?thesis by (intro exI [of _ 0]) auto
  next
    case None
    with Cons.prems em have "emit_all e rs w1 = (err, w')" by simp
    from Cons.IH [OF this] obtain n out' where "n \<le> length rs" "(err = None) = (n = length rs)"
      "accepted w' = accepted w1 @ out'"
      "map untimed out' = map untimed (filter (\<lambda>r. \<not> Dropped r) (take n rs))" by blast
    with out None show ?thesis by (intro exI [of _ "Suc n"] exI [of _ "out @ out'"]) simp
  qed
qed simp

text \<open>The flush of a round: the due bodies are emitted in order; exactly the entries whose
  bodies were taken disappear.  After an error the others are still there.\<close>

lemma flushExpired_result:
  assumes fl: "flushExpired e now s = (err, s')" and ok: "map_ok (tl_pending s)"
  defines "ds \<equiv> filter (due now) (tl_pending s)"
  shows "\<exists>n rs. n \<le> length ds \<and> (err = None \<longleftrightarrow> n = length ds)
    \<and> tl_state s' = tl_state s
    \<and> accepted (tl_world s') = accepted (tl_world s) @ rs
    \<and> map Body rs = map (pd_body \<circ> snd) (filter kept_entry (take n ds))
    \<and> map entry_view (tl_pending s') =
        map entry_view (filter (\<lambda>kp. fst kp \<notin> fst ` set (take n ds)) (tl_pending s))"
proof -
  obtain xs kps' where sel: "flush_select now (tl_pending s) = (None, xs, kps')"
    "map expired_view xs = map (\<lambda>kp. (entry_view kp, kept_entry kp)) ds"
    "map entry_view kps' = map entry_view (tl_pending s)"
    using flush_select_view unfolding ds_def by blast
  let ?s = "s\<lparr>tl_pending := kps'\<rparr>"
  have len: "length xs = length ds" using arg_cong [OF sel(2), of length] by simp
  note keys = select_keys [OF ok sel(2,3) [unfolded ds_def], folded ds_def]
  have "flush_emit e xs ?s = (err, s')" using fl sel(1) by (simp add: flushExpired_def)
  from flush_emit_result [OF this keys(2)] keys(3) obtain n rs where n: "n \<le> length xs"
    "(err = None) = (n = length xs)" "tl_state s' = tl_state s"
    "tl_pending s' = filter (\<lambda>kp. fst kp \<notin> xp_key ` set (take n xs)) kps'"
    "accepted (tl_world s') = accepted (tl_world s) @ rs"
    "map untimed rs = map untimed (filter (\<lambda>r. \<not> Dropped r) (map xp_record (take n xs)))"
    by auto
  have k: "xp_key ` set (take n xs) = fst ` set (take n ds)"
    using arg_cong [OF keys(1), of "\<lambda>l. set (take n l)"] by (simp add: take_map)
  have "map entry_view (tl_pending s') =
      filter (\<lambda>v. fst v \<notin> fst ` set (take n ds)) (map entry_view kps')"
    unfolding n(4) k by (simp add: filter_map o_def entry_view_def)
  then have v: "map entry_view (tl_pending s') =
      map entry_view (filter (\<lambda>kp. fst kp \<notin> fst ` set (take n ds)) (tl_pending s))"
    unfolding sel(3) by (simp add: filter_map o_def entry_view_def)
  have "map Body rs = map Body (map untimed rs)" by simp
  also have "\<dots> = map (snd \<circ> snd \<circ> fst) (filter snd (map expired_view (take n xs)))"
    unfolding n(6) by (simp add: filter_map o_def expired_view_def)
  also have "map expired_view (take n xs) = map (\<lambda>kp. (entry_view kp, kept_entry kp)) (take n ds)"
    using arg_cong [OF sel(2), of "take n"] by (simp add: take_map)
  finally have "map Body rs = map (pd_body \<circ> snd) (filter kept_entry (take n ds))"
    by (simp add: filter_map o_def entry_view_def)
  with n v len show ?thesis by (intro exI [of _ n] exI [of _ rs]) simp
qed

lemma emit_all_bodies:
  assumes sel: "close_select kps = Inr rs" and em: "emit_all e rs w = (err, w')"
  defines "bs \<equiv> filter (\<lambda>kp. pd_body (snd kp) \<noteq> []) kps"
  shows "\<exists>n out. n \<le> length bs \<and> (err = None \<longleftrightarrow> n = length bs) \<and> accepted w' = accepted w @ out
    \<and> map Body out = map (pd_body \<circ> snd) (filter kept_entry (take n bs))"
proof -
  have bodies: "map (\<lambda>r. (Body r, \<not> Dropped r)) rs = map (\<lambda>kp. (pd_body (snd kp), kept_entry kp)) bs"
    using close_select_bodies [of kps] sel unfolding bs_def by auto
  obtain n out where n: "n \<le> length rs" "(err = None) = (n = length rs)" "accepted w' = accepted w @ out"
    "map untimed out = map untimed (filter (\<lambda>r. \<not> Dropped r) (take n rs))"
    using emit_all_result [OF em] by blast
  have "map Body out = map Body (map untimed out)" by simp
  also have "\<dots> = map fst (filter snd (map (\<lambda>r. (Body r, \<not> Dropped r)) (take n rs)))"
    unfolding n(4) by (simp add: filter_map o_def)
  also have "map (\<lambda>r. (Body r, \<not> Dropped r)) (take n rs) =
      map (\<lambda>kp. (pd_body (snd kp), kept_entry kp)) (take n bs)"
    using arg_cong [OF bodies, of "take n"] by (simp add: take_map)
  finally have "map Body out = map (pd_body \<circ> snd) (filter kept_entry (take n bs))"
    by (simp add: filter_map o_def)
  moreover have "length rs = length bs" using arg_cong [OF bodies, of length] by simp
  ultimately show ?thesis using n by (intro exI [of _ n] exI [of _ out]) simp
qed

lemma Close_result:
  assumes cl: "Close e marshal io (s, d) = (err, s', d')"
  defines "bs \<equiv> filter (\<lambda>kp. pd_body (snd kp) \<noteq> []) (tl_pending s)"
  shows "\<exists>n rs. n \<le> length bs \<and> tl_pending s' = []
    \<and> accepted (tl_world s') = accepted (tl_world s) @ rs
    \<and> map Body rs = map (pd_body \<circ> snd) (filter kept_entry (take n bs))
    \<and> (if n = length bs
       then Save marshal io (tl_state s, d) = (err, tl_state s', d')
       else err \<noteq> None \<and> tl_state s' = tl_state s \<and> d' = d)"
proof -
  obtain rs where sel: "close_select (tl_pending s) = Inr rs" using close_select_bodies by blast
  obtain err1 w where em: "emit_all e rs (tl_world s) = (err1, w)" by fastforce
  obtain n out where n: "n \<le> length bs" "(err1 = None) = (n = length bs)"
    "accepted w = accepted (tl_world s) @ out"
    "map Body out = map (pd_body \<circ> snd) (filter kept_entry (take n bs))"
    using emit_all_bodies [OF sel em] unfolding bs_def by blast
  show ?thesis
  proof (cases err1)
    case None
    with cl sel em n show ?thesis
      by (intro exI [of _ n] exI [of _ out]) (auto simp: Close_def split: prod.splits)
  next
    case (Some x)
    with cl sel em n show ?thesis
      by (intro exI [of _ n] exI [of _ out]) (auto simp: Close_def split: prod.splits)
  qed
qed

end

end
