(* ===== verification/ExportQueue.thy ===== *)
theory ExportQueue
  imports Otlp Config "HOL-Library.Sublist"
begin

text \<open>
  The queue and the batches of \<open>internal/exporter/otlphttp.go\<close>: \<open>Enqueue\<close> with the
  reservation of bytes, and \<open>Run\<close>.  Producers and the consumer interleave, so the system
  is a step relation: a producer reserves bytes, then pushes or gives up; the consumer
  receives, ticks, drains and stops.  \<open>send\<close> stands for \<open>sendWithRetry\<close> on the network
  \<open>'n\<close>.  The fields \<open>xq_accepted\<close>, \<open>xq_sent\<close> and \<open>xq_lost\<close> are a history that the
  code does not keep.
\<close>

section \<open>State\<close>

datatype run_phase = Running | Draining | Stopped "gerr option"

record 'n exporter =
  xq_input :: "log_record list"
  xq_inflight :: "log_record list"  \<comment> \<open>bytes reserved, not yet pushed\<close>
  xq_queued :: int
  xq_batch :: "log_record list"
  xq_batch_bytes :: int
  xq_phase :: run_phase
  xq_net :: 'n
  xq_accepted :: "log_record list"
  xq_sent :: "log_record list list"
  xq_lost :: "log_record list"

definition new_exporter :: "'n \<Rightarrow> 'n exporter" where
  "new_exporter n = \<lparr>xq_input = [], xq_inflight = [], xq_queued = 0, xq_batch = [],
     xq_batch_bytes = 0, xq_phase = Running, xq_net = n, xq_accepted = [], xq_sent = [],
     xq_lost = []\<rparr>"

type_synonym 'n sender = "log_record list \<Rightarrow> 'n \<Rightarrow> gerr option \<times> 'n"

section \<open>Producers\<close>

text \<open>One turn of the loop of \<open>reserveQueueBytes\<close>: \<open>None\<close> when it has to wait.\<close>

definition reserveQueueBytes :: "export_config \<Rightarrow> log_record \<Rightarrow> 'n exporter \<Rightarrow> 'n exporter option" where
  "reserveQueueBytes cfg r s =
     (if xq_queued s + recordSize r \<le> ex_MaxQueueBytes cfg
      then Some (s\<lparr>xq_queued := xq_queued s + recordSize r, xq_inflight := r # xq_inflight s\<rparr>)
      else None)"

definition releaseQueueBytes :: "int \<Rightarrow> 'n exporter \<Rightarrow> 'n exporter" where
  "releaseQueueBytes sz s = s\<lparr>xq_queued := xq_queued s - sz\<rparr>"

text \<open>The send on the channel of \<open>QueueSize\<close> records: \<open>None\<close> when it is full.\<close>

definition push :: "export_config \<Rightarrow> log_record \<Rightarrow> 'n exporter \<Rightarrow> 'n exporter option" where
  "push cfg r s =
     (if int (length (xq_input s)) < ex_QueueSize cfg
      then Some (s\<lparr>xq_input := xq_input s @ [r], xq_inflight := remove1 r (xq_inflight s),
                   xq_accepted := xq_accepted s @ [r]\<rparr>)
      else None)"

definition give_up :: "log_record \<Rightarrow> 'n exporter \<Rightarrow> 'n exporter" where
  "give_up r s = releaseQueueBytes (recordSize r) (s\<lparr>xq_inflight := remove1 r (xq_inflight s)\<rparr>)"

section \<open>The consumer\<close>

definition flush :: "'n sender \<Rightarrow> 'n exporter \<Rightarrow> gerr option \<times> 'n exporter" where
  "flush send s =
     (if xq_batch s = [] then (None, s)
      else (case send (xq_batch s) (xq_net s) of
              (Some err, n) \<Rightarrow> (Some err, s\<lparr>xq_net := n\<rparr>)
            | (None, n) \<Rightarrow> (None, s\<lparr>xq_net := n, xq_batch := [], xq_batch_bytes := 0,
                                   xq_sent := xq_sent s @ [xq_batch s]\<rparr>)))"

definition add_to_batch :: "log_record \<Rightarrow> 'n exporter \<Rightarrow> 'n exporter" where
  "add_to_batch r s = s\<lparr>xq_batch := xq_batch s @ [r],
     xq_batch_bytes := xq_batch_bytes s + recordSize r\<rparr>"

definition appendRecord :: "export_config \<Rightarrow> 'n sender \<Rightarrow> log_record \<Rightarrow> 'n exporter \<Rightarrow>
    gerr option \<times> 'n exporter" where
  "appendRecord cfg send r s =
     (if xq_batch s \<noteq> [] \<and> (ex_BatchSize cfg \<le> int (length (xq_batch s))
           \<or> ex_MaxBatchBytes cfg < xq_batch_bytes s + recordSize r)
      then (case flush send s of
              (Some err, s) \<Rightarrow> (Some err, s\<lparr>xq_lost := [r]\<rparr>)
            | (None, s) \<Rightarrow> (None, add_to_batch r s))
      else (None, add_to_batch r s))"

text \<open>The two places that receive: the running loop also flushes a full batch, the drain does
  not.\<close>

definition take_input :: "log_record \<Rightarrow> log_record list \<Rightarrow> 'n exporter \<Rightarrow> 'n exporter" where
  "take_input r rest s = releaseQueueBytes (recordSize r) (s\<lparr>xq_input := rest\<rparr>)"

definition receive :: "export_config \<Rightarrow> 'n sender \<Rightarrow> log_record \<Rightarrow> log_record list \<Rightarrow> 'n exporter \<Rightarrow>
    gerr option \<times> 'n exporter" where
  "receive cfg send r rest s =
     (case appendRecord cfg send r (take_input r rest s) of
        (Some err, s) \<Rightarrow> (Some err, s)
      | (None, s) \<Rightarrow>
          if ex_BatchSize cfg \<le> int (length (xq_batch s)) \<or> ex_MaxBatchBytes cfg \<le> xq_batch_bytes s
          then flush send s else (None, s))"

definition stop_on :: "gerr option \<times> 'n exporter \<Rightarrow> 'n exporter" where
  "stop_on es = (case es of (None, s) \<Rightarrow> s | (Some err, s) \<Rightarrow> s\<lparr>xq_phase := Stopped (Some err)\<rparr>)"

text \<open>In the drain, \<open>send\<close> runs under the shut-down time-out, so it is a sender of its own.  And
  \<open>stopExporter\<close> cancels the very context a running \<open>flush\<close> sends under; a select that is
  ready may also still choose the queue or the ticker after the cancellation.  So the exporter may
  make the steps of \<open>late_receive\<close> and \<open>late_tick\<close> with any sender at all, one whose context is
  cancelled in the middle of the send included.  A flush is one step, at its start: the producers
  do not touch the batch meanwhile.\<close>

inductive export_step :: "export_config \<Rightarrow> 'n sender \<Rightarrow> 'n sender \<Rightarrow> 'n exporter \<Rightarrow> 'n exporter \<Rightarrow> bool"
  for cfg send last_send where
  reserve: "recordSize r \<le> ex_MaxQueueBytes cfg \<Longrightarrow> reserveQueueBytes cfg r s = Some s' \<Longrightarrow>
    export_step cfg send last_send s s'"
| push: "r \<in> set (xq_inflight s) \<Longrightarrow> push cfg r s = Some s' \<Longrightarrow> export_step cfg send last_send s s'"
| cancel: "r \<in> set (xq_inflight s) \<Longrightarrow> export_step cfg send last_send s (give_up r s)"
| receive: "xq_phase s = Running \<Longrightarrow> xq_input s = r # rest \<Longrightarrow>
    export_step cfg send last_send s (stop_on (receive cfg send r rest s))"
| tick: "xq_phase s = Running \<Longrightarrow> export_step cfg send last_send s (stop_on (flush send s))"
| late_receive: "xq_phase s = Running \<Longrightarrow> xq_input s = r # rest \<Longrightarrow>
    export_step cfg send last_send s (stop_on (receive cfg late_send r rest s))"
| late_tick: "xq_phase s = Running \<Longrightarrow> export_step cfg send last_send s (stop_on (flush late_send s))"
| shutdown: "xq_phase s = Running \<Longrightarrow> export_step cfg send last_send s (s\<lparr>xq_phase := Draining\<rparr>)"
| drain: "xq_phase s = Draining \<Longrightarrow> xq_input s = r # rest \<Longrightarrow>
    export_step cfg send last_send s (stop_on (appendRecord cfg last_send r (take_input r rest s)))"
| drained: "xq_phase s = Draining \<Longrightarrow> xq_input s = [] \<Longrightarrow> flush last_send s = (err, s') \<Longrightarrow>
    export_step cfg send last_send s (s'\<lparr>xq_phase := Stopped err\<rparr>)"

section \<open>Enqueue\<close>

text \<open>A whole call of \<open>Enqueue\<close>, with a schedule of what happens while the call waits: the
  receives and ticks of the running exporter, the steps of other producers, and \<open>ACancel\<close> where
  the context of the call is done and the select chooses it.  A call whose schedule is used up is
  cancelled.  \<open>own\<close> is what the call itself has reserved, which the others cannot push.\<close>

datatype action = AReceive | ATick | ACancel
  | AReserve log_record | APush log_record | AGiveUp log_record

definition others :: "log_record list \<Rightarrow> 'n exporter \<Rightarrow> log_record list" where
  "others own s = foldr remove1 own (xq_inflight s)"

fun act :: "export_config \<Rightarrow> 'n sender \<Rightarrow> log_record list \<Rightarrow> action \<Rightarrow> 'n exporter \<Rightarrow> 'n exporter" where
  "act cfg send own ATick s = (if xq_phase s = Running then stop_on (flush send s) else s)"
| "act cfg send own AReceive s =
     (case xq_input s of
        [] \<Rightarrow> s
      | r # rest \<Rightarrow> if xq_phase s = Running then stop_on (receive cfg send r rest s) else s)"
| "act cfg send own ACancel s = s"
| "act cfg send own (AReserve q) s =
     (if recordSize q \<le> ex_MaxQueueBytes cfg
      then (case reserveQueueBytes cfg q s of None \<Rightarrow> s | Some s' \<Rightarrow> s') else s)"
| "act cfg send own (APush q) s =
     (if q \<in> set (others own s) then (case push cfg q s of None \<Rightarrow> s | Some s' \<Rightarrow> s') else s)"
| "act cfg send own (AGiveUp q) s = (if q \<in> set (others own s) then give_up q s else s)"

fun wait_reserve :: "export_config \<Rightarrow> 'n sender \<Rightarrow> action list \<Rightarrow> log_record \<Rightarrow> 'n exporter \<Rightarrow>
    gerr option \<times> action list \<times> 'n exporter" where
  "wait_reserve cfg send acts r s =
     (case reserveQueueBytes cfg r s of
        Some s' \<Rightarrow> (None, acts, s')
      | None \<Rightarrow> (case acts of
                   [] \<Rightarrow> (Some Canceled, [], s)
                 | ACancel # as \<Rightarrow> (Some Canceled, as, s)
                 | a # as \<Rightarrow> wait_reserve cfg send as r (act cfg send [] a s)))"

text \<open>The select of \<open>Enqueue\<close>: a done context may be chosen even when there is room.\<close>

fun wait_push :: "export_config \<Rightarrow> 'n sender \<Rightarrow> action list \<Rightarrow> log_record \<Rightarrow> 'n exporter \<Rightarrow>
    gerr option \<times> action list \<times> 'n exporter" where
  "wait_push cfg send (ACancel # as) r s = (Some Canceled, as, give_up r s)"
| "wait_push cfg send acts r s =
     (case push cfg r s of
        Some s' \<Rightarrow> (None, acts, s')
      | None \<Rightarrow> (case acts of
                   [] \<Rightarrow> (Some Canceled, [], give_up r s)
                 | a # as \<Rightarrow> wait_push cfg send as r (act cfg send [r] a s)))"

declare wait_reserve.simps [simp del] wait_push.simps [simp del]

definition Enqueue :: "export_config \<Rightarrow> 'n sender \<Rightarrow> log_record \<Rightarrow> action list \<times> 'n exporter \<Rightarrow>
    gerr option \<times> action list \<times> 'n exporter" where
  "Enqueue cfg send r w =
     (if ex_MaxQueueBytes cfg < recordSize r
      then (Some (Errorf ''log record exceeds export.max_queue_bytes''), w)
      else (case wait_reserve cfg send (fst w) r (snd w) of
              (Some err, acts, s) \<Rightarrow> (Some err, acts, s)
            | (None, acts, s) \<Rightarrow> wait_push cfg send acts r s))"

section \<open>The invariant\<close>

definition total_size :: "log_record list \<Rightarrow> int" where
  "total_size rs = sum_list (map recordSize rs)"

lemma total_size_simps [simp]:
  "total_size [] = 0" "total_size (r # rs) = recordSize r + total_size rs"
  "total_size (rs @ rs') = total_size rs + total_size rs'"
  by (simp_all add: total_size_def)

lemma total_size_remove1: "r \<in> set rs \<Longrightarrow> total_size (remove1 r rs) = total_size rs - recordSize r"
  by (induction rs) auto

lemma sum_entry_size_nonneg: "0 \<le> sum_list (map entry_size m)"
  by (intro sum_list_nonneg) (auto simp: entry_size_def)

lemma recordSize_pos: "128 \<le> recordSize r"
  using sum_entry_size_nonneg [of "entries (RecAttributes r)"]
    sum_entry_size_nonneg [of "entries (RecResourceAttributes r)"] by (simp add: recordSize_def)

lemma total_size_nonneg: "0 \<le> total_size rs"
  unfolding total_size_def
proof (intro sum_list_nonneg)
  fix x assume "x \<in> set (map recordSize rs)"
  then obtain r where "x = recordSize r" by auto
  then show "0 \<le> x" using recordSize_pos [of r] by simp
qed

text \<open>A batch: at most \<open>BatchSize\<close> records and \<open>MaxBatchBytes\<close> bytes, unless it is one
  record that is larger by itself.\<close>

definition batch_ok :: "export_config \<Rightarrow> log_record list \<Rightarrow> bool" where
  "batch_ok cfg b \<longleftrightarrow> int (length b) \<le> ex_BatchSize cfg
     \<and> (total_size b \<le> ex_MaxBatchBytes cfg \<or> length b \<le> 1)"

text \<open>\<open>hand\<close> is a record received and not yet in the batch.\<close>

definition queue_inv :: "export_config \<Rightarrow> log_record list \<Rightarrow> 'n exporter \<Rightarrow> bool" where
  "queue_inv cfg hand s \<longleftrightarrow>
     xq_queued s = total_size (xq_input s) + total_size (xq_inflight s)
     \<and> xq_queued s \<le> ex_MaxQueueBytes cfg
     \<and> int (length (xq_input s)) \<le> ex_QueueSize cfg
     \<and> xq_batch_bytes s = total_size (xq_batch s)
     \<and> batch_ok cfg (xq_batch s)
     \<and> list_all (\<lambda>b. b \<noteq> [] \<and> batch_ok cfg b) (xq_sent s)
     \<and> xq_accepted s = concat (xq_sent s) @ xq_batch s @ hand @ xq_input s"

definition export_inv :: "export_config \<Rightarrow> 'n exporter \<Rightarrow> bool" where
  "export_inv cfg s \<longleftrightarrow> queue_inv cfg (xq_lost s) s
     \<and> (xq_lost s \<noteq> [] \<longrightarrow> (\<exists>err. xq_phase s = Stopped (Some err)))
     \<and> (xq_phase s = Stopped None \<longrightarrow> xq_batch s = [])"

lemma export_inv_new:
  "0 < ex_BatchSize cfg \<Longrightarrow> 0 \<le> ex_QueueSize cfg \<Longrightarrow> 0 \<le> ex_MaxQueueBytes cfg \<Longrightarrow>
     export_inv cfg (new_exporter n)"
  by (simp add: export_inv_def queue_inv_def new_exporter_def batch_ok_def)

lemma batch_ok_Nil: "0 < ex_BatchSize cfg \<Longrightarrow> batch_ok cfg []"
  by (simp add: batch_ok_def)

lemma queue_inv_fields:
  "queue_inv cfg h (s\<lparr>xq_net := n\<rparr>) = queue_inv cfg h s"
  "queue_inv cfg h (s\<lparr>xq_phase := p\<rparr>) = queue_inv cfg h s"
  "queue_inv cfg h (s\<lparr>xq_lost := l\<rparr>) = queue_inv cfg h s"
  by (simp_all add: queue_inv_def)

text \<open>The producers.\<close>

lemma export_inv_reserve:
  "export_inv cfg s \<Longrightarrow> reserveQueueBytes cfg r s = Some s' \<Longrightarrow> export_inv cfg s'"
  by (auto simp: export_inv_def queue_inv_def reserveQueueBytes_def split: if_splits)

lemma export_inv_push:
  "export_inv cfg s \<Longrightarrow> r \<in> set (xq_inflight s) \<Longrightarrow> push cfg r s = Some s' \<Longrightarrow> export_inv cfg s'"
  by (auto simp: export_inv_def queue_inv_def push_def total_size_remove1 split: if_splits)

lemma export_inv_give_up:
  "export_inv cfg s \<Longrightarrow> r \<in> set (xq_inflight s) \<Longrightarrow> export_inv cfg (give_up r s)"
  using recordSize_pos [of r]
  by (auto simp: export_inv_def queue_inv_def give_up_def releaseQueueBytes_def total_size_remove1)

text \<open>The consumer.\<close>

lemma flush_inv:
  assumes "queue_inv cfg h s" "0 < ex_BatchSize cfg" "flush send s = (err, s')"
  shows "queue_inv cfg h s' \<and> xq_phase s' = xq_phase s \<and> xq_lost s' = xq_lost s
    \<and> xq_input s' = xq_input s \<and> xq_accepted s' = xq_accepted s
    \<and> (err = None \<longrightarrow> xq_batch s' = [])"
  using assms
  by (auto simp: flush_def queue_inv_def batch_ok_Nil split: if_splits prod.splits option.splits)

lemma queue_inv_take:
  assumes "queue_inv cfg [] s" "xq_input s = r # rest"
  shows "queue_inv cfg [r] (take_input r rest s)"
  using assms recordSize_pos [of r]
  by (auto simp: queue_inv_def take_input_def releaseQueueBytes_def)

lemma queue_inv_add:
  assumes "queue_inv cfg [r] s" "0 < ex_BatchSize cfg"
    and "xq_batch s \<noteq> [] \<longrightarrow> int (length (xq_batch s)) < ex_BatchSize cfg
      \<and> xq_batch_bytes s + recordSize r \<le> ex_MaxBatchBytes cfg"
  shows "queue_inv cfg [] (add_to_batch r s)"
  using assms by (auto simp: queue_inv_def add_to_batch_def batch_ok_def)

lemma appendRecord_inv:
  assumes "queue_inv cfg [r] s" "0 < ex_BatchSize cfg" "xq_lost s = []"
    and app: "appendRecord cfg send r s = (err, s')"
  shows "queue_inv cfg (xq_lost s') s' \<and> xq_phase s' = xq_phase s \<and> (err = None \<longrightarrow> xq_lost s' = [])
    \<and> xq_accepted s' = xq_accepted s \<and> xq_input s' = xq_input s"
proof (cases "xq_batch s \<noteq> [] \<and> (ex_BatchSize cfg \<le> int (length (xq_batch s))
    \<or> ex_MaxBatchBytes cfg < xq_batch_bytes s + recordSize r)")
  case False
  with app have "err = None" "s' = add_to_batch r s" by (auto simp: appendRecord_def)
  with queue_inv_add [OF assms(1,2)] False assms(3) show ?thesis
    by (auto simp: add_to_batch_def)
next
  case True
  obtain err1 s1 where fl: "flush send s = (err1, s1)" by fastforce
  note f = flush_inv [OF assms(1,2) fl]
  show ?thesis
  proof (cases err1)
    case None
    with app True fl have "err = None" "s' = add_to_batch r s1" by (auto simp: appendRecord_def)
    with f None queue_inv_add [of cfg r s1] assms(2,3) show ?thesis by (auto simp: add_to_batch_def)
  next
    case (Some e)
    with app True fl have "err = Some e" "s' = s1\<lparr>xq_lost := [r]\<rparr>" by (auto simp: appendRecord_def)
    with f show ?thesis by (simp add: queue_inv_fields)
  qed
qed

lemma receive_inv:
  assumes "queue_inv cfg [] s" "0 < ex_BatchSize cfg" "xq_lost s = []" "xq_input s = r # rest"
    and rc: "receive cfg send r rest s = (err, s')"
  shows "queue_inv cfg (xq_lost s') s' \<and> xq_phase s' = xq_phase s \<and> (err = None \<longrightarrow> xq_lost s' = [])
    \<and> xq_accepted s' = xq_accepted s \<and> xq_input s' = rest"
proof -
  let ?t = "take_input r rest s"
  obtain err1 s1 where ap: "appendRecord cfg send r ?t = (err1, s1)" by fastforce
  have t: "xq_lost ?t = []" "xq_phase ?t = xq_phase s" "xq_accepted ?t = xq_accepted s" "xq_input ?t = rest"
    using assms(3) by (simp_all add: take_input_def releaseQueueBytes_def)
  note a = appendRecord_inv [OF queue_inv_take [OF assms(1,4)] assms(2) t(1) ap]
  show ?thesis
  proof (cases err1)
    case None
    with a have "queue_inv cfg [] s1" by metis
    moreover obtain err2 s2 where fl: "flush send s1 = (err2, s2)" by fastforce
    ultimately have "queue_inv cfg [] s2 \<and> xq_phase s2 = xq_phase s1 \<and> xq_lost s2 = xq_lost s1
      \<and> xq_input s2 = xq_input s1 \<and> xq_accepted s2 = xq_accepted s1"
      using flush_inv [OF _ assms(2)] by blast
    with a None rc ap fl t show ?thesis by (auto simp: receive_def split: if_splits)
  next
    case (Some e)
    with a rc ap t show ?thesis by (auto simp: receive_def)
  qed
qed

lemma export_inv_stop:
  assumes "queue_inv cfg (xq_lost s) s" "\<forall>x. xq_phase s \<noteq> Stopped x" "err = None \<longrightarrow> xq_lost s = []"
  shows "export_inv cfg (stop_on (err, s))"
  using assms by (cases err) (auto simp: export_inv_def stop_on_def queue_inv_fields)

lemma export_inv_running:
  "export_inv cfg s \<Longrightarrow> \<forall>x. xq_phase s \<noteq> Stopped x \<Longrightarrow> queue_inv cfg [] s \<and> xq_lost s = []"
  by (auto simp: export_inv_def)

lemma export_inv_receive:
  assumes "export_inv cfg s" "0 < ex_BatchSize cfg" "xq_phase s = Running" "xq_input s = r # rest"
  shows "export_inv cfg (stop_on (receive cfg send r rest s))"
proof -
  obtain err s' where rc: "receive cfg send r rest s = (err, s')" by fastforce
  from export_inv_running [OF assms(1)] assms(3) have "queue_inv cfg [] s" "xq_lost s = []" by simp_all
  from receive_inv [OF this(1) assms(2) this(2) assms(4) rc] assms(3) show ?thesis
    unfolding rc by (intro export_inv_stop) auto
qed

lemma export_inv_tick:
  assumes "export_inv cfg s" "0 < ex_BatchSize cfg" "xq_phase s = Running"
  shows "export_inv cfg (stop_on (flush send s))"
proof -
  obtain err s' where fl: "flush send s = (err, s')" by fastforce
  from export_inv_running [OF assms(1)] assms(3) have "queue_inv cfg [] s" "xq_lost s = []" by simp_all
  with flush_inv [OF this(1) assms(2) fl] assms(3) show ?thesis
    unfolding fl by (intro export_inv_stop) auto
qed

lemma export_inv_drain:
  assumes "export_inv cfg s" "0 < ex_BatchSize cfg" "xq_phase s = Draining" "xq_input s = r # rest"
  shows "export_inv cfg (stop_on (appendRecord cfg send r (take_input r rest s)))"
proof -
  obtain err s' where ap: "appendRecord cfg send r (take_input r rest s) = (err, s')" by fastforce
  from export_inv_running [OF assms(1)] assms(3) have q: "queue_inv cfg [] s" "xq_lost s = []" by simp_all
  then have "xq_lost (take_input r rest s) = []" "xq_phase (take_input r rest s) = Draining"
    using assms(3) by (simp_all add: take_input_def releaseQueueBytes_def)
  with appendRecord_inv [OF queue_inv_take [OF q(1) assms(4)] assms(2) this(1) ap] show ?thesis
    unfolding ap by (intro export_inv_stop) auto
qed

lemma export_inv_drained:
  assumes "export_inv cfg s" "0 < ex_BatchSize cfg" "xq_phase s = Draining" "flush send s = (err, s')"
  shows "export_inv cfg (s'\<lparr>xq_phase := Stopped err\<rparr>)"
proof -
  from export_inv_running [OF assms(1)] assms(3) have "queue_inv cfg [] s" "xq_lost s = []" by simp_all
  with flush_inv [OF this(1) assms(2,4)] show ?thesis
    by (auto simp: export_inv_def queue_inv_fields)
qed

lemma export_inv_step:
  assumes "export_step cfg send last_send s s'" "export_inv cfg s" "0 < ex_BatchSize cfg"
  shows "export_inv cfg s'"
  using assms(1)
proof (cases rule: export_step.cases)
  case shutdown
  with assms(2) show ?thesis by (auto simp: export_inv_def queue_inv_fields)
qed (use assms(2,3) in \<open>blast intro: export_inv_reserve export_inv_push export_inv_give_up
      export_inv_receive export_inv_tick export_inv_drain export_inv_drained\<close>)+

lemma export_inv_reachable:
  assumes "(export_step cfg send last_send)\<^sup>*\<^sup>* s s'" "export_inv cfg s" "0 < ex_BatchSize cfg"
  shows "export_inv cfg s'"
  using assms(1,2) by (induction rule: rtranclp_induct) (auto intro: export_inv_step assms(3))

text \<open>At most one record is lost, and a stopped exporter sends nothing more.\<close>

lemma flush_lost: "flush send s = (err, s') \<Longrightarrow> xq_lost s' = xq_lost s"
  by (auto simp: flush_def split: if_splits prod.splits option.splits)

lemma appendRecord_lost:
  "appendRecord cfg send r s = (err, s') \<Longrightarrow> length (xq_lost s) \<le> 1 \<Longrightarrow> length (xq_lost s') \<le> 1"
  by (auto simp: appendRecord_def add_to_batch_def split: if_splits prod.splits option.splits dest!: flush_lost)

lemma stop_on_lost: "xq_lost (stop_on es) = xq_lost (snd es)"
  by (cases es) (auto simp: stop_on_def split: option.split)

lemma receive_lost:
  assumes "length (xq_lost s) \<le> 1"
  shows "length (xq_lost (stop_on (receive cfg send r rest s))) \<le> 1"
proof -
  obtain err s1 where ap: "appendRecord cfg send r (take_input r rest s) = (err, s1)" by fastforce
  have "length (xq_lost (take_input r rest s)) \<le> 1" using assms by (simp add: take_input_def releaseQueueBytes_def)
  with appendRecord_lost [OF ap] have s1: "length (xq_lost s1) \<le> 1" by simp
  obtain err2 s2 where fl: "flush send s1 = (err2, s2)" by fastforce
  from s1 flush_lost [OF fl] ap fl show ?thesis
    by (cases err) (auto simp: receive_def stop_on_lost)
qed

lemma export_step_lost:
  assumes "export_step cfg send last_send s s'" "length (xq_lost s) \<le> 1"
  shows "length (xq_lost s') \<le> 1"
  using assms(1)
proof (cases rule: export_step.cases)
  case (drain r rest)
  obtain err s1 where ap: "appendRecord cfg last_send r (take_input r rest s) = (err, s1)" by fastforce
  have "length (xq_lost (take_input r rest s)) \<le> 1" using assms by (simp add: take_input_def releaseQueueBytes_def)
  from appendRecord_lost [OF ap this] drain(1) ap show ?thesis by (simp add: stop_on_lost)
next
  case (drained err s1)
  with flush_lost [OF drained(4)] assms(2) show ?thesis by simp
next
  case tick
  obtain err s1 where fl: "flush send s = (err, s1)" by fastforce
  with tick flush_lost [OF fl] assms(2) show ?thesis by (simp add: stop_on_lost)
next
  case (late_tick late)
  obtain err s1 where fl: "flush late s = (err, s1)" by fastforce
  with late_tick flush_lost [OF fl] assms(2) show ?thesis by (simp add: stop_on_lost)
qed (use assms(2) receive_lost in \<open>auto simp: reserveQueueBytes_def push_def give_up_def releaseQueueBytes_def split: if_splits\<close>)

lemma lost_reachable:
  "(export_step cfg send last_send)\<^sup>*\<^sup>* s s' \<Longrightarrow> length (xq_lost s) \<le> 1 \<Longrightarrow> length (xq_lost s') \<le> 1"
  by (induction rule: rtranclp_induct) (use export_step_lost in blast)+

lemma stopped_step:
  assumes "export_step cfg send last_send s s'" "xq_phase s = Stopped e"
  shows "xq_phase s' = Stopped e \<and> xq_sent s' = xq_sent s \<and> xq_batch s' = xq_batch s \<and> xq_lost s' = xq_lost s
    \<and> prefix (xq_input s) (xq_input s')"
  using assms
  by (cases rule: export_step.cases)
     (auto simp: reserveQueueBytes_def push_def give_up_def releaseQueueBytes_def split: if_splits)

lemma stopped_reachable:
  "(export_step cfg send last_send)\<^sup>*\<^sup>* s s' \<Longrightarrow> xq_phase s = Stopped e \<Longrightarrow>
     xq_phase s' = Stopped e \<and> xq_sent s' = xq_sent s \<and> xq_batch s' = xq_batch s \<and> xq_lost s' = xq_lost s
     \<and> prefix (xq_input s) (xq_input s')"
proof (induction rule: rtranclp_induct)
  case (step t u)
  with stopped_step [OF step.hyps(2)] show ?case by (metis prefix_order.trans)
qed simp

section \<open>Enqueue is a run of steps\<close>

lemma others_subset: "set (others own s) \<subseteq> set (xq_inflight s)"
proof -
  have "set (foldr remove1 own xs) \<subseteq> set xs" for xs
    by (induction own) (auto dest: notin_set_remove1 set_remove1_subset [THEN subsetD])
  then show ?thesis by (simp add: others_def)
qed

lemma act_late_steps: "(export_step cfg send last_send)\<^sup>*\<^sup>* s (act cfg late own a s)"
proof (cases a)
  case AReceive
  then show ?thesis
    by (cases "xq_input s") (auto intro: r_into_rtranclp export_step.late_receive)
next
  case ATick
  then show ?thesis by (auto intro: r_into_rtranclp export_step.late_tick)
next
  case ACancel
  then show ?thesis by simp
next
  case (AReserve q)
  then show ?thesis by (auto intro: r_into_rtranclp export_step.reserve split: option.split)
next
  case (APush q)
  with others_subset [of own s] show ?thesis
    by (auto intro: r_into_rtranclp export_step.push split: option.split)
next
  case (AGiveUp q)
  with others_subset [of own s] show ?thesis by (auto intro: r_into_rtranclp export_step.cancel)
qed

lemma act_steps: "(export_step cfg send last_send)\<^sup>*\<^sup>* s (act cfg send own a s)"
  by (rule act_late_steps)

lemma stop_on_fields:
  "xq_accepted (stop_on (err, s)) = xq_accepted s"
  "xq_inflight (stop_on (err, s)) = xq_inflight s"
  "xq_input (stop_on (err, s)) = xq_input s"
  by (cases err; simp add: stop_on_def)+

lemma flush_fields:
  "flush send s = (err, s') \<Longrightarrow> xq_accepted s' = xq_accepted s \<and> xq_inflight s' = xq_inflight s
     \<and> xq_input s' = xq_input s"
  by (auto simp: flush_def split: if_splits prod.splits option.splits)

lemma appendRecord_fields:
  "appendRecord cfg send r s = (err, s') \<Longrightarrow> xq_accepted s' = xq_accepted s
     \<and> xq_inflight s' = xq_inflight s \<and> xq_input s' = xq_input s"
  by (auto simp: appendRecord_def add_to_batch_def split: if_splits prod.splits option.splits
      dest!: flush_fields)

lemma receive_fields:
  "receive cfg send r rest s = (err, s') \<Longrightarrow> xq_accepted s' = xq_accepted s
     \<and> xq_inflight s' = xq_inflight s \<and> xq_input s' = rest"
  by (auto simp: receive_def take_input_def releaseQueueBytes_def
      split: if_splits prod.splits option.splits dest!: flush_fields appendRecord_fields)

text \<open>What the schedule adds: the records other producers push.\<close>

fun pushes :: "action list \<Rightarrow> log_record list" where
  "pushes [] = []"
| "pushes (APush q # acts) = q # pushes acts"
| "pushes (a # acts) = pushes acts"

lemma pushes_append [simp]: "pushes (as @ bs) = pushes as @ pushes bs"
  by (induction as rule: pushes.induct) simp_all

lemma pushes_Cons: "pushes (a # acts) = pushes [a] @ pushes acts"
  using pushes_append [of "[a]" acts] by simp

abbreviation consumer :: "action \<Rightarrow> bool" where
  "consumer a \<equiv> a \<in> {AReceive, ATick, ACancel}"

lemma consumer_pushes: "consumer a \<Longrightarrow> pushes [a] = []"
  by auto

lemma act_consumer:
  assumes "consumer a"
  shows "xq_accepted (act cfg send own a s) = xq_accepted s \<and> xq_inflight (act cfg send own a s) = xq_inflight s"
proof -
  consider "a = AReceive" | "a = ATick" | "a = ACancel" using assms by blast
  then show ?thesis
  proof cases
    case 1
    show ?thesis
    proof (cases "xq_input s")
      case (Cons r rest)
      obtain err s' where "receive cfg send r rest s = (err, s')" by fastforce
      with 1 Cons receive_fields [OF this] show ?thesis by (simp add: stop_on_fields)
    qed (simp add: 1)
  next
    case 2
    obtain err s' where "flush send s = (err, s')" by fastforce
    with 2 flush_fields [OF this] show ?thesis by (simp add: stop_on_fields)
  qed simp
qed

lemma act_accepted: "\<exists>qs. subseq qs (pushes [a]) \<and> xq_accepted (act cfg send own a s) = xq_accepted s @ qs"
proof (cases "consumer a")
  case True
  show ?thesis unfolding conjunct1 [OF act_consumer [OF True]] by (intro exI [of _ "[]"]) simp
next
  case False
  then show ?thesis
  proof (cases a)
    case (APush q)
    show ?thesis
      unfolding APush by (cases "push cfg q s") (auto simp: push_def split: if_splits)
  qed (auto simp: reserveQueueBytes_def give_up_def releaseQueueBytes_def)
qed

text \<open>The others leave the record the call has reserved alone.\<close>

lemma remove1_twice: "q \<in> set (remove1 r rs) \<Longrightarrow> r \<in> set rs \<Longrightarrow> r \<in> set (remove1 q rs)"
  by (metis in_set_remove1 remove1_commute)

lemma act_keeps_own:
  assumes "r \<in> set (xq_inflight s)"
  shows "r \<in> set (xq_inflight (act cfg send [r] a s))"
proof (cases "consumer a")
  case True
  show ?thesis unfolding conjunct2 [OF act_consumer [OF True]] by (rule assms)
next
  case False
  then show ?thesis
  proof (cases a)
    case (APush q)
    with assms remove1_twice [of q r "xq_inflight s"] show ?thesis
      by (auto simp: others_def push_def split: option.split)
  next
    case (AGiveUp q)
    with assms remove1_twice [of q r "xq_inflight s"] show ?thesis
      by (auto simp: others_def give_up_def releaseQueueBytes_def)
  qed (use assms in \<open>auto simp: reserveQueueBytes_def split: option.split\<close>)
qed

lemma reserve_run:
  assumes "reserveQueueBytes cfg r s = Some s'" "recordSize r \<le> ex_MaxQueueBytes cfg"
  shows "(export_step cfg send last_send)\<^sup>*\<^sup>* s s' \<and> xq_accepted s' = xq_accepted s
    \<and> r \<in> set (xq_inflight s')"
proof -
  have "export_step cfg send last_send s s'" using assms(2,1) by (rule export_step.reserve)
  with assms(1) show ?thesis by (auto simp: reserveQueueBytes_def split: if_splits)
qed

lemma push_run:
  assumes "push cfg r s = Some s'" "r \<in> set (xq_inflight s)"
  shows "(export_step cfg send last_send)\<^sup>*\<^sup>* s s' \<and> xq_accepted s' = xq_accepted s @ [r]"
proof -
  have "export_step cfg send last_send s s'" using assms(2,1) by (rule export_step.push)
  with assms(1) show ?thesis by (auto simp: push_def split: if_splits)
qed

lemma give_up_run:
  assumes "r \<in> set (xq_inflight s)"
  shows "(export_step cfg send last_send)\<^sup>*\<^sup>* s (give_up r s)
    \<and> xq_accepted (give_up r s) = xq_accepted s"
proof -
  have "export_step cfg send last_send s (give_up r s)" using assms by (rule export_step.cancel)
  then show ?thesis by (auto simp: give_up_def releaseQueueBytes_def)
qed

text \<open>One turn of each loop.\<close>

lemma wait_reserve_room:
  "reserveQueueBytes cfg r s = Some s' \<Longrightarrow> wait_reserve cfg send acts r s = (None, acts, s')"
  by (subst wait_reserve.simps) simp

lemma wait_reserve_full:
  assumes "reserveQueueBytes cfg r s = None"
  shows "wait_reserve cfg send [] r s = (Some Canceled, [], s)"
    "wait_reserve cfg send (a # acts) r s =
       (if a = ACancel then (Some Canceled, acts, s) else wait_reserve cfg send acts r (act cfg send [] a s))"
  by (subst wait_reserve.simps; simp add: assms) (subst wait_reserve.simps; cases a; simp add: assms)

lemma wait_push_cancelled: "wait_push cfg send (ACancel # acts) r s = (Some Canceled, acts, give_up r s)"
  by (simp add: wait_push.simps)

lemma wait_push_room:
  "push cfg r s = Some s' \<Longrightarrow> acts = [] \<or> hd acts \<noteq> ACancel \<Longrightarrow> wait_push cfg send acts r s = (None, acts, s')"
  by (cases "(cfg, send, acts, r, s)" rule: wait_push.cases; simp; subst wait_push.simps; simp)

lemma wait_push_full:
  assumes "push cfg r s = None"
  shows "wait_push cfg send [] r s = (Some Canceled, [], give_up r s)"
    "a \<noteq> ACancel \<Longrightarrow> wait_push cfg send (a # acts) r s = wait_push cfg send acts r (act cfg send [r] a s)"
proof -
  show "wait_push cfg send [] r s = (Some Canceled, [], give_up r s)"
    by (subst wait_push.simps) (simp add: assms)
  show "wait_push cfg send (a # acts) r s = wait_push cfg send acts r (act cfg send [r] a s)" if "a \<noteq> ACancel"
    using that by (cases a) (simp_all add: wait_push.simps assms)
qed

lemma wait_reserve_steps:
  assumes "wait_reserve cfg send acts r s = (err, acts', s')" "recordSize r \<le> ex_MaxQueueBytes cfg"
  shows "\<exists>before qs. acts = before @ acts' \<and> subseq qs (pushes before)
    \<and> (export_step cfg send last_send)\<^sup>*\<^sup>* s s' \<and> xq_accepted s' = xq_accepted s @ qs
    \<and> (err = None \<longrightarrow> r \<in> set (xq_inflight s'))"
  using assms(1)
proof (induction acts arbitrary: s)
  case Nil
  then show ?case
  proof (cases "reserveQueueBytes cfg r s")
    case (Some s1)
    with Nil have "s' = s1" "err = None" "acts' = []" by (simp_all add: wait_reserve_room)
    with reserve_run [OF Some assms(2)] show ?thesis by simp
  qed (auto simp: wait_reserve_full)
next
  case (Cons a acts)
  show ?case
  proof (cases "reserveQueueBytes cfg r s")
    case (Some s1)
    with Cons have "s' = s1" "err = None" "acts' = a # acts" by (simp_all add: wait_reserve_room)
    with reserve_run [OF Some assms(2)] show ?thesis by simp
  next
    case None
    show ?thesis
    proof (cases "a = ACancel")
      case True
      with Cons None have "s' = s" "err \<noteq> None" "acts' = acts" by (auto simp: wait_reserve_full)
      then show ?thesis by (intro exI [of _ "[a]"] exI [of _ "[]"]) auto
    next
      case False
      with Cons None have "wait_reserve cfg send acts r (act cfg send [] a s) = (err, acts', s')"
        by (simp add: wait_reserve_full)
      from Cons.IH [OF this] obtain before qs where IH: "acts = before @ acts'" "subseq qs (pushes before)"
        "(export_step cfg send last_send)\<^sup>*\<^sup>* (act cfg send [] a s) s'"
        "xq_accepted s' = xq_accepted (act cfg send [] a s) @ qs" "err = None \<longrightarrow> r \<in> set (xq_inflight s')" by blast
      obtain qs0 where "subseq qs0 (pushes [a])" "xq_accepted (act cfg send [] a s) = xq_accepted s @ qs0"
        using act_accepted by blast
      with IH rtranclp_trans [OF act_steps IH(3)] show ?thesis
        by (intro exI [of _ "a # before"] exI [of _ "qs0 @ qs"]) (simp add: pushes_Cons [of a before] list_emb_append_mono)
    qed
  qed
qed

lemma wait_push_steps:
  assumes "wait_push cfg send acts r s = (err, acts', s')" "r \<in> set (xq_inflight s)"
  shows "\<exists>before qs. acts = before @ acts' \<and> subseq qs (pushes before)
    \<and> (export_step cfg send last_send)\<^sup>*\<^sup>* s s'
    \<and> xq_accepted s' = xq_accepted s @ qs @ (if err = None then [r] else [])"
  using assms
proof (induction acts arbitrary: s)
  case Nil
  then show ?case
  proof (cases "push cfg r s")
    case (Some s1)
    with Nil have "s' = s1" "err = None" "acts' = []" by (simp_all add: wait_push_room)
    with push_run [OF Some Nil(2)] show ?thesis by simp
  next
    case None
    with Nil have "s' = give_up r s" "err \<noteq> None" "acts' = []" by (auto simp: wait_push_full)
    with give_up_run [OF Nil(2)] show ?thesis by simp
  qed
next
  case (Cons a acts)
  show ?case
  proof (cases "a = ACancel")
    case True
    with Cons have "s' = give_up r s" "err \<noteq> None" "acts' = acts" by (auto simp: wait_push_cancelled)
    with give_up_run [OF Cons(3)] show ?thesis by (intro exI [of _ "[a]"] exI [of _ "[]"]) simp
  next
    case False
    show ?thesis
    proof (cases "push cfg r s")
      case (Some s1)
      with Cons False have "s' = s1" "err = None" "acts' = a # acts" by (simp_all add: wait_push_room)
      with push_run [OF Some Cons(3)] show ?thesis by simp
    next
      case None
      with Cons False have "wait_push cfg send acts r (act cfg send [r] a s) = (err, acts', s')"
        by (simp add: wait_push_full)
      from Cons.IH [OF this act_keeps_own [OF Cons(3)]] obtain before qs where IH: "acts = before @ acts'"
        "subseq qs (pushes before)" "(export_step cfg send last_send)\<^sup>*\<^sup>* (act cfg send [r] a s) s'"
        "xq_accepted s' = xq_accepted (act cfg send [r] a s) @ qs @ (if err = None then [r] else [])" by blast
      obtain qs0 where "subseq qs0 (pushes [a])" "xq_accepted (act cfg send [r] a s) = xq_accepted s @ qs0"
        using act_accepted by blast
      with IH rtranclp_trans [OF act_steps IH(3)] show ?thesis
        by (intro exI [of _ "a # before"] exI [of _ "qs0 @ qs"]) (simp add: pushes_Cons [of a before] list_emb_append_mono)
    qed
  qed
qed

lemma Enqueue_steps:
  assumes "Enqueue cfg send r (acts, s) = (err, acts', s')"
  shows "\<exists>before qs. acts = before @ acts' \<and> subseq qs (pushes before)
    \<and> (export_step cfg send last_send)\<^sup>*\<^sup>* s s'
    \<and> xq_accepted s' = xq_accepted s @ qs @ (if err = None then [r] else [])"
proof (cases "ex_MaxQueueBytes cfg < recordSize r")
  case True
  with assms show ?thesis by (auto simp: Enqueue_def)
next
  case False
  obtain err1 acts1 s1 where w: "wait_reserve cfg send acts r s = (err1, acts1, s1)"
    by (metis prod_cases3)
  obtain b1 q1 where 1: "acts = b1 @ acts1" "subseq q1 (pushes b1)" "(export_step cfg send last_send)\<^sup>*\<^sup>* s s1"
    "xq_accepted s1 = xq_accepted s @ q1" "err1 = None \<longrightarrow> r \<in> set (xq_inflight s1)"
    using wait_reserve_steps [OF w, of last_send] False by force
  show ?thesis
  proof (cases err1)
    case None
    with assms False w have "wait_push cfg send acts1 r s1 = (err, acts', s')" by (simp add: Enqueue_def)
    from wait_push_steps [OF this, of last_send] 1(5) None obtain b2 q2 where 2: "acts1 = b2 @ acts'"
      "subseq q2 (pushes b2)" "(export_step cfg send last_send)\<^sup>*\<^sup>* s1 s'"
      "xq_accepted s' = xq_accepted s1 @ q2 @ (if err = None then [r] else [])" by blast
    with 1 rtranclp_trans [OF 1(3) 2(3)] show ?thesis
      by (intro exI [of _ "b1 @ b2"] exI [of _ "q1 @ q2"]) (simp add: list_emb_append_mono)
  next
    case (Some e)
    with assms False w have "err = Some e" "s' = s1" "acts' = acts1" by (simp_all add: Enqueue_def)
    with 1 show ?thesis by (intro exI [of _ b1] exI [of _ q1]) simp
  qed
qed

lemma Enqueue_alone:
  assumes "Enqueue cfg send r (acts, s) = (err, acts', s')" "list_all consumer acts"
  shows "(export_step cfg send last_send)\<^sup>*\<^sup>* s s' \<and> list_all consumer acts'
    \<and> xq_accepted s' = xq_accepted s @ (if err = None then [r] else [])"
proof -
  obtain before qs where e: "acts = before @ acts'" "subseq qs (pushes before)"
    "(export_step cfg send last_send)\<^sup>*\<^sup>* s s'"
    "xq_accepted s' = xq_accepted s @ qs @ (if err = None then [r] else [])"
    using Enqueue_steps [OF assms(1)] by blast
  have "pushes before = []" using assms(2) e(1) by (induction before arbitrary: acts) (auto simp: consumer_pushes)
  with e assms(2) show ?thesis by simp
qed

text \<open>With room in the queue, \<open>Enqueue\<close> takes the record at once, without waiting; only a select
  that chooses the cancelled context refuses it, and then the reservation is undone.\<close>

lemma Enqueue_room:
  assumes "xq_queued s + recordSize r \<le> ex_MaxQueueBytes cfg" "0 \<le> xq_queued s"
    and "int (length (xq_input s)) < ex_QueueSize cfg" "acts = [] \<or> hd acts \<noteq> ACancel"
  shows "\<exists>s'. Enqueue cfg send r (acts, s) = (None, acts, s')
    \<and> xq_input s' = xq_input s @ [r] \<and> xq_queued s' = xq_queued s + recordSize r
    \<and> xq_batch s' = xq_batch s \<and> xq_phase s' = xq_phase s"
proof -
  obtain s1 where s1: "reserveQueueBytes cfg r s = Some s1" using assms(1) by (simp add: reserveQueueBytes_def)
  then obtain s2 where s2: "push cfg r s1 = Some s2"
    using assms(3) by (auto simp: reserveQueueBytes_def push_def split: if_splits)
  have "Enqueue cfg send r (acts, s) = (None, acts, s2)"
    using assms(1,2) wait_reserve_room [OF s1] wait_push_room [OF s2 assms(4)] by (simp add: Enqueue_def)
  with s1 s2 show ?thesis by (auto simp: reserveQueueBytes_def push_def split: if_splits)
qed

lemma Enqueue_refused:
  assumes "xq_queued s + recordSize r \<le> ex_MaxQueueBytes cfg" "0 \<le> xq_queued s"
  shows "Enqueue cfg send r (ACancel # acts, s) = (Some Canceled, acts, s)"
proof -
  obtain s1 where s1: "reserveQueueBytes cfg r s = Some s1" using assms(1) by (simp add: reserveQueueBytes_def)
  then have "give_up r s1 = s" by (auto simp: reserveQueueBytes_def give_up_def releaseQueueBytes_def split: if_splits)
  with assms wait_reserve_room [OF s1, of send "ACancel # acts"] wait_push_cancelled [of cfg send acts r s1]
  show ?thesis by (simp add: Enqueue_def)
qed

section \<open>The drain\<close>

text \<open>The loop of the shut-down without further producers, and its result.\<close>

fun drain_all :: "export_config \<Rightarrow> 'n sender \<Rightarrow> log_record list \<Rightarrow> 'n exporter \<Rightarrow> gerr option \<times> 'n exporter" where
  "drain_all cfg send [] s = flush send s"
| "drain_all cfg send (r # rest) s =
     (case appendRecord cfg send r (take_input r rest s) of
        (Some err, s) \<Rightarrow> (Some err, s)
      | (None, s) \<Rightarrow> drain_all cfg send rest s)"

definition shutdown_run :: "export_config \<Rightarrow> 'n sender \<Rightarrow> 'n exporter \<Rightarrow> gerr option \<times> 'n exporter" where
  "shutdown_run cfg send s = drain_all cfg send (xq_input s) s"

lemma flush_success:
  "\<forall>b n. fst (send b n) = None \<Longrightarrow> fst (flush send s) = None"
  by (auto simp: flush_def split: prod.split option.split) (metis fst_conv option.distinct(1))

lemma appendRecord_success:
  "\<forall>b n. fst (send b n) = None \<Longrightarrow> fst (appendRecord cfg send r s) = None"
  using flush_success [of send s]
  by (auto simp: appendRecord_def split: prod.split option.split)

lemma drain_all_sent:
  assumes "queue_inv cfg [] s" "0 < ex_BatchSize cfg" "xq_lost s = []" "\<forall>b n. fst (send b n) = None"
    and "xq_input s = input" "drain_all cfg send input s = (err, s')"
  shows "err = None \<and> concat (xq_sent s') = xq_accepted s \<and> xq_input s' = [] \<and> xq_batch s' = []
    \<and> xq_queued s' = total_size (xq_inflight s') \<and> list_all (\<lambda>b. b \<noteq> [] \<and> batch_ok cfg b) (xq_sent s')"
  using assms(1,3,5,6)
proof (induction input arbitrary: s)
  case Nil
  then have fl: "flush send s = (err, s')" by simp
  with flush_success [OF assms(4), of s] have "err = None" by simp
  with flush_inv [OF Nil(1) assms(2) fl] Nil show ?case by (auto simp: queue_inv_def)
next
  case (Cons r rest)
  obtain e1 s1 where ap: "appendRecord cfg send r (take_input r rest s) = (e1, s1)" by fastforce
  with appendRecord_success [OF assms(4), of cfg r "take_input r rest s"] have e: "e1 = None" by simp
  have t: "xq_lost (take_input r rest s) = []" "xq_input (take_input r rest s) = rest"
    "xq_accepted (take_input r rest s) = xq_accepted s"
    using Cons by (simp_all add: take_input_def releaseQueueBytes_def)
  have "queue_inv cfg [] s1 \<and> xq_lost s1 = [] \<and> xq_accepted s1 = xq_accepted s \<and> xq_input s1 = rest"
    using appendRecord_inv [OF queue_inv_take [OF Cons.prems(1,3)] assms(2) t(1) ap] e t by metis
  with Cons.IH [of s1] Cons.prems ap e show ?case by simp
qed

section \<open>Properties\<close>

text \<open>C5. In every state the exporter can reach from an empty queue, whatever the producers,
  the network and the interleaving do: the bytes counted are those queued or reserved and
  stay within \<open>MaxQueueBytes\<close>, the queue within \<open>QueueSize\<close>, every batch within its
  limits unless it is one oversized record, and the records accepted are the records sent,
  batched, lost and queued, in this order.  At most one record is in the hand of the exporter
  (\<open>xq_lost\<close>) when it stops, and only if it stops with an error.  From then on nothing more is
  sent: the batch, the record in hand and the queue stay behind unsent, and the queue still takes
  what producers push.  An exporter that stopped without an error has an empty batch.\<close>

theorem exporter_bounds_and_order:
  assumes "(export_step cfg send last_send)\<^sup>*\<^sup>* (new_exporter n) s"
    and "0 < ex_BatchSize cfg" "0 \<le> ex_QueueSize cfg" "0 \<le> ex_MaxQueueBytes cfg"
  shows "xq_queued s = total_size (xq_input s) + total_size (xq_inflight s)
    \<and> xq_queued s \<le> ex_MaxQueueBytes cfg \<and> int (length (xq_input s)) \<le> ex_QueueSize cfg
    \<and> list_all (\<lambda>b. b \<noteq> [] \<and> batch_ok cfg b) (xq_sent s) \<and> batch_ok cfg (xq_batch s)
    \<and> xq_accepted s = concat (xq_sent s) @ xq_batch s @ xq_lost s @ xq_input s
    \<and> length (xq_lost s) \<le> 1 \<and> (xq_lost s \<noteq> [] \<longrightarrow> (\<exists>err. xq_phase s = Stopped (Some err)))
    \<and> (xq_phase s = Stopped None \<longrightarrow> xq_batch s = [])
    \<and> (\<forall>e t. xq_phase s = Stopped e \<and> (export_step cfg send last_send)\<^sup>*\<^sup>* s t \<longrightarrow>
         xq_phase t = Stopped e \<and> xq_sent t = xq_sent s \<and> xq_batch t = xq_batch s \<and> xq_lost t = xq_lost s
         \<and> prefix (xq_input s) (xq_input t))"
proof -
  have "length (xq_lost (new_exporter n)) \<le> 1" by (simp add: new_exporter_def)
  from lost_reachable [OF assms(1) this] stopped_reachable [of cfg send last_send s]
    export_inv_reachable [OF assms(1) export_inv_new [OF assms(2-4)] assms(2)]
  show ?thesis unfolding export_inv_def queue_inv_def by blast
qed

definition example_record :: "string \<Rightarrow> log_record" where
  "example_record body = plain_record body []"

definition example_export :: export_config where
  "example_export = (cf_Export defaults)\<lparr>ex_Endpoint := ''e'', ex_BatchSize := 2, ex_QueueSize := 3\<rparr>"

lemma example_record_size: "recordSize (example_record body) = int (length body) + 128"
  by (simp add: example_record_def plain_record_def recordSize_def)

theorem exporter_bounds_and_order_witness:
  "xq_accepted (snd (snd (Enqueue example_export (\<lambda>b n. (None, n)) (example_record ''x'') ([], new_exporter ()))))
     = [example_record ''x'']
   \<and> xq_queued (snd (snd (Enqueue example_export (\<lambda>b n. (None, n)) (example_record ''x'') ([], new_exporter ())))) = 129"
proof -
  let ?E = "Enqueue example_export (\<lambda>b n. (None, n)) (example_record ''x'') ([], new_exporter ())"
  have lim: "ex_MaxQueueBytes example_export = 67108864" "ex_QueueSize example_export = 3"
    "ex_BatchSize example_export = 2" by (simp_all add: example_export_def defaults_def)
  obtain s' where s': "?E = (None, [], s')" "xq_input s' = [example_record ''x'']"
    "xq_queued s' = 129" "xq_batch s' = []" "xq_phase s' = Running"
    using Enqueue_room [of "new_exporter ()" "example_record ''x''" example_export "[]" "\<lambda>b n. (None, n)"]
    by (auto simp: new_exporter_def example_record_size lim)
  have st: "(export_step example_export (\<lambda>b n. (None, n)) (\<lambda>b n. (None, n)))\<^sup>*\<^sup>* (new_exporter ()) s'
      \<and> xq_accepted s' = xq_accepted (new_exporter ()) @ [example_record ''x'']"
    using Enqueue_alone [OF s'(1), of "\<lambda>b n. (None, n)"] by simp
  then have "xq_accepted s' = [example_record ''x'']" by (simp add: new_exporter_def)
  with exporter_bounds_and_order [OF conjunct1 [OF st]] s' lim show ?thesis by simp
qed

text \<open>C26. The shut-down sends everything: when the sends under the shut-down time-out succeed,
  the drain ends without error with an empty queue, and every record ever accepted has been
  sent, in order, in batches within the limits.\<close>

theorem shutdown_sends_all:
  assumes "export_inv cfg s" "0 < ex_BatchSize cfg" "xq_phase s = Draining"
    and "\<forall>b n. fst (send b n) = None" "shutdown_run cfg send s = (err, s')"
  shows "err = None \<and> concat (xq_sent s') = xq_accepted s \<and> xq_input s' = [] \<and> xq_batch s' = []
    \<and> xq_queued s' = total_size (xq_inflight s')
    \<and> list_all (\<lambda>b. b \<noteq> [] \<and> batch_ok cfg b) (xq_sent s')"
  using export_inv_running [OF assms(1)] assms(3,5)
  by (intro drain_all_sent [OF _ assms(2) _ assms(4) refl]) (auto simp: shutdown_run_def)

theorem shutdown_sends_all_witness:
  "concat (xq_sent (snd (shutdown_run example_export (\<lambda>b n. (None, n))
     \<lparr>xq_input = map example_record [''a'', ''b'', ''c''], xq_inflight = [], xq_queued = 387,
      xq_batch = [], xq_batch_bytes = 0, xq_phase = Draining, xq_net = (),
      xq_accepted = map example_record [''a'', ''b'', ''c''], xq_sent = [], xq_lost = []\<rparr>)))
   = map example_record [''a'', ''b'', ''c'']"
proof -
  let ?s = "\<lparr>xq_input = map example_record [''a'', ''b'', ''c''], xq_inflight = [], xq_queued = 387,
      xq_batch = [], xq_batch_bytes = 0, xq_phase = Draining, xq_net = (),
      xq_accepted = map example_record [''a'', ''b'', ''c''], xq_sent = [], xq_lost = []\<rparr>"
  have "export_inv example_export ?s" "0 < ex_BatchSize example_export" "xq_phase ?s = Draining"
    by (simp_all add: export_inv_def queue_inv_def example_export_def defaults_def example_record_size
        batch_ok_def)
  from shutdown_sends_all [OF this, of "\<lambda>b n. (None, n)"] show ?thesis
    by (metis (no_types, lifting) exporter.select_convs(8) fst_conv prod.collapse)
qed

text \<open>C30. A call of \<open>Enqueue\<close>, however long it waits and whatever the running consumer and other
  producers do meanwhile, is a run of steps of the exporter.  Besides what the others push while it
  waits, it adds its record exactly if it returns nil.  When there is room it returns at once: with
  nil, unless its context is cancelled and the select chooses that, which leaves the exporter as
  it was.\<close>

theorem Enqueue_is_a_run:
  assumes "Enqueue cfg send r (acts, s) = (err, acts', s')"
  shows "(\<exists>before qs. acts = before @ acts' \<and> subseq qs (pushes before)
      \<and> (export_step cfg send last_send)\<^sup>*\<^sup>* s s'
      \<and> xq_accepted s' = xq_accepted s @ qs @ (if err = None then [r] else []))
    \<and> (xq_queued s + recordSize r \<le> ex_MaxQueueBytes cfg \<and> 0 \<le> xq_queued s
        \<and> int (length (xq_input s)) < ex_QueueSize cfg \<longrightarrow>
        (if acts \<noteq> [] \<and> hd acts = ACancel
         then err = Some Canceled \<and> acts' = List.tl acts \<and> s' = s
         else err = None \<and> acts' = acts \<and> xq_input s' = xq_input s @ [r]))"
proof -
  have "if acts \<noteq> [] \<and> hd acts = ACancel then err = Some Canceled \<and> acts' = List.tl acts \<and> s' = s
      else err = None \<and> acts' = acts \<and> xq_input s' = xq_input s @ [r]"
    if "xq_queued s + recordSize r \<le> ex_MaxQueueBytes cfg" "0 \<le> xq_queued s"
      "int (length (xq_input s)) < ex_QueueSize cfg"
  proof (cases "acts \<noteq> [] \<and> hd acts = ACancel")
    case True
    then have "acts = ACancel # List.tl acts" by (metis list.collapse)
    with Enqueue_refused [OF that(1,2), of send "List.tl acts"] assms True show ?thesis by simp
  next
    case False
    with Enqueue_room [OF that, of acts send] assms show ?thesis by auto
  qed
  with Enqueue_steps [OF assms, of last_send] show ?thesis by blast
qed

theorem Enqueue_is_a_run_witness:
  "\<exists>s'. Enqueue (example_export\<lparr>ex_MaxQueueBytes := 100\<rparr>) (\<lambda>b n. (None, n)) (example_record ''x'')
      ([], new_exporter ()) = (Some (Errorf ''log record exceeds export.max_queue_bytes''), [], s')
    \<and> xq_accepted s' = []"
proof -
  let ?cfg = "example_export\<lparr>ex_MaxQueueBytes := 100\<rparr>"
  have e: "Enqueue ?cfg (\<lambda>b n. (None, n)) (example_record ''x'') ([], new_exporter ())
      = (Some (Errorf ''log record exceeds export.max_queue_bytes''), [], new_exporter ())"
    by (simp add: Enqueue_def example_record_size)
  from Enqueue_is_a_run [OF e] e show ?thesis by (simp add: new_exporter_def)
qed

end
