(* ===== verification/StoreSystem.thy ===== *)
theory StoreSystem
  imports StateStore
begin

text \<open>
  The save protocol of \<open>internal/state/store.go\<close> under concurrency: the periodic save is
  one goroutine, and updates and clean-ups of the table may happen between its two critical
  sections.  The theorem is the one the \<open>dirty\<close> flag is for: when it is not set, the state
  file holds the table.  The application never runs two saves at once (the flush loop ends
  before \<open>Close\<close> saves), so there is one saver.
\<close>

section \<open>The system\<close>

datatype saver = SaverIdle | SaverBegun string "64 word" | SaverWritten "64 word"

text \<open>\<open>sy_since\<close> counts the changes since the save began; it is not part of the code.\<close>

record save_system =
  sy_store :: store
  sy_main :: "string option"
  sy_saver :: saver
  sy_since :: nat

definition set_bump :: "string \<Rightarrow> position \<Rightarrow> store \<Rightarrow> nat" where
  "set_bump k p st = (if st_generation (Set k p st) = st_generation st then 0 else 1)"

definition cleanup_bump :: "time \<Rightarrow> (string \<Rightarrow> gerr + stat_t option) \<Rightarrow> store \<Rightarrow> nat" where
  "cleanup_bump olderThan stat st = length (filter (stale olderThan stat) (st_positions st))"

text \<open>What a Go table of positions can be, and what JSON can carry: distinct keys, keys and paths
  that are valid UTF-8 (\<open>encoding/json\<close> replaces other bytes), offsets of type \<open>int64\<close>.\<close>

definition go_position :: "string \<Rightarrow> position \<Rightarrow> bool" where
  "go_position k p \<longleftrightarrow> valid_utf8 k \<and> valid_utf8 (PosPath p) \<and> - (2 ^ 63) \<le> Offset p \<and> Offset p < 2 ^ 63"

lemma valid_utf8_identity_key: "valid_utf8 (identity_key info)"
proof -
  have "\<forall>c \<in> set (identity_key info). byte c < 128"
    using format_uint_digits by (fastforce simp: identity_key_def)
  then show ?thesis by (simp add: valid_utf8_def runes_of_bytes of_runes_bytes)
qed

definition go_table :: "positions \<Rightarrow> bool" where
  "go_table ps \<longleftrightarrow> map_ok ps \<and> list_all (\<lambda>kp. go_position (fst kp) (snd kp)) ps"

text \<open>Fewer than \<open>2 ^ 64\<close> changes happen during one save.\<close>

inductive save_step :: "(positions \<Rightarrow> gerr + string) \<Rightarrow> save_system \<Rightarrow> save_system \<Rightarrow> bool"
  for marshal where
  update: "sy_since s + set_bump k p (sy_store s) < 2 ^ 64 \<Longrightarrow> go_position k p \<Longrightarrow>
    save_step marshal s (s\<lparr>sy_store := Set k p (sy_store s),
                           sy_since := sy_since s + set_bump k p (sy_store s)\<rparr>)"
| clean: "sy_since s + cleanup_bump olderThan stat (sy_store s) < 2 ^ 64 \<Longrightarrow>
    save_step marshal s (s\<lparr>sy_store := Cleanup olderThan stat (sy_store s),
                           sy_since := sy_since s + cleanup_bump olderThan stat (sy_store s)\<rparr>)"
| start: "sy_saver s = SaverIdle \<Longrightarrow>
    save_begin marshal force (sy_store s) = Some (Inr (b, gen)) \<Longrightarrow>
    save_step marshal s (s\<lparr>sy_saver := SaverBegun b gen, sy_since := 0\<rparr>)"
| replace: "sy_saver s = SaverBegun b gen \<Longrightarrow>
    save_step marshal s (s\<lparr>sy_main := Some b, sy_saver := SaverWritten gen\<rparr>)"
| abort: "sy_saver s = SaverBegun b gen \<Longrightarrow>
    save_step marshal s (s\<lparr>sy_saver := SaverIdle\<rparr>)"
| commit: "sy_saver s = SaverWritten gen \<Longrightarrow>
    save_step marshal s (s\<lparr>sy_store := save_commit gen (sy_store s), sy_saver := SaverIdle\<rparr>)"

text \<open>The table of the state file as \<open>Load\<close> reads it; \<open>None\<close> where there is none: a file that
  does not decode, and \<open>null\<close>.\<close>

definition readback :: "(string \<Rightarrow> gerr + positions option) \<Rightarrow> string option \<Rightarrow> positions option" where
  "readback unmarshal main =
     (case Load unmarshal [] (Inr main) of
        Inr (LoadedStore st) \<Rightarrow> Some (st_positions st)
      | Inr (NilStore path) \<Rightarrow> None
      | Inl err \<Rightarrow> None)"

lemma readback_simps [simp]:
  "readback unmarshal None = Some []" "readback unmarshal (Some []) = Some []"
  "b \<noteq> [] \<Longrightarrow> readback unmarshal (Some b) = (case unmarshal b of Inl err \<Rightarrow> None | Inr m \<Rightarrow> m)"
  by (auto simp: readback_def Load_def Let_def split: sum.split option.split)

lemma Load_readback:
  "Load unmarshal path (Inr main) = Inr (LoadedStore st) \<Longrightarrow> readback unmarshal main = Some (st_positions st)"
  by (cases main; auto simp: readback_def Load_def Let_def split: option.splits sum.splits if_splits)

definition persisted :: "(string \<Rightarrow> gerr + positions option) \<Rightarrow> string option \<Rightarrow> positions \<Rightarrow> bool" where
  "persisted unmarshal main ps =
     (case readback unmarshal main of None \<Rightarrow> False | Some ps' \<Rightarrow> map_of ps' = map_of ps)"

text \<open>The documented behaviour of \<open>encoding/json\<close> the store relies on: a map with valid UTF-8
  keys, whose values have valid UTF-8 strings and \<open>int64\<close> numbers, is encoded to a text that
  decodes to the same map.\<close>

definition json_codec ::
    "(positions \<Rightarrow> gerr + string) \<Rightarrow> (string \<Rightarrow> gerr + positions option) \<Rightarrow> bool" where
  "json_codec marshal unmarshal \<longleftrightarrow> (\<forall>ps b. go_table ps \<longrightarrow> marshal ps = Inr b \<longrightarrow>
     b \<noteq> [] \<and> (\<exists>ps'. unmarshal b = Inr (Some ps') \<and> map_of ps' = map_of ps))"

lemma json_codecD:
  "json_codec marshal unmarshal \<Longrightarrow> go_table ps \<Longrightarrow> marshal ps = Inr b \<Longrightarrow>
     persisted unmarshal (Some b) ps"
  unfolding json_codec_def persisted_def by fastforce

section \<open>The invariant\<close>

definition save_inv ::
    "(positions \<Rightarrow> gerr + string) \<Rightarrow> (string \<Rightarrow> gerr + positions option) \<Rightarrow> save_system \<Rightarrow> bool" where
  "save_inv marshal unmarshal s \<longleftrightarrow>
     go_table (st_positions (sy_store s))
     \<and> (\<not> st_dirty (sy_store s) \<longrightarrow> persisted unmarshal (sy_main s) (st_positions (sy_store s)))
     \<and> (case sy_saver s of
          SaverIdle \<Rightarrow> True
        | SaverBegun b gen \<Rightarrow>
            sy_since s < 2 ^ 64 \<and> st_generation (sy_store s) = gen + of_nat (sy_since s)
            \<and> (if sy_since s = 0 then marshal (st_positions (sy_store s)) = Inr b
               else st_dirty (sy_store s))
        | SaverWritten gen \<Rightarrow>
            sy_since s < 2 ^ 64 \<and> st_generation (sy_store s) = gen + of_nat (sy_since s)
            \<and> (if sy_since s = 0 then persisted unmarshal (sy_main s) (st_positions (sy_store s))
               else st_dirty (sy_store s)))"

lemma go_table_map_set:
  "go_table ps \<Longrightarrow> go_position k p \<Longrightarrow> go_table (map_set k p ps)"
proof -
  have "list_all P ps \<Longrightarrow> P (k, p) \<Longrightarrow> list_all P (AList.update k p ps)" for P
    by (induction ps) auto
  then show "go_table ps \<Longrightarrow> go_position k p \<Longrightarrow> ?thesis"
    by (simp add: go_table_def) (simp add: map_set_def)
qed

lemma Set_cases:
  obtains "Set k p st = st" "set_bump k p st = 0"
  | "Set k p st = st\<lparr>st_positions := map_set k p (st_positions st), st_dirty := True,
       st_generation := st_generation st + 1\<rparr>" "set_bump k p st = 1"
  by (cases "Set k p st = st") (auto simp: Set_def set_bump_def Let_def split: option.splits if_splits)

lemma filter_none: "length (filter P xs) = 0 \<Longrightarrow> filter (\<lambda>x. \<not> P x) xs = xs"
  by (simp add: filter_id_conv filter_empty_conv)

lemma Cleanup_cases:
  obtains "Cleanup olderThan stat st = st" "cleanup_bump olderThan stat st = 0"
  | P n where "st_positions (Cleanup olderThan stat st) = filter P (st_positions st)"
      "st_dirty (Cleanup olderThan stat st)" "cleanup_bump olderThan stat st = Suc n"
      "st_generation (Cleanup olderThan stat st) = st_generation st + of_nat (Suc n)"
proof (cases "filter (stale olderThan stat) (st_positions st)")
  case Nil
  then show thesis
    by (intro that(1)) (simp_all add: Cleanup_def cleanup_fold cleanup_bump_def)
next
  case (Cons x xs)
  then show thesis
    by (intro that(2) [of _ "length xs"])
       (simp_all add: Cleanup_def cleanup_fold cleanup_bump_def)
qed

lemma go_table_filter: "go_table ps \<Longrightarrow> go_table (filter P ps)"
  by (auto simp: go_table_def list_all_iff map_ok_filter)

lemma go_table_Nil [simp]: "go_table []"
  by (simp add: go_table_def)

lemma of_nat_word_zero: "n < 2 ^ 64 \<Longrightarrow> (of_nat n :: 64 word) = 0 \<longleftrightarrow> n = 0"
  by (auto simp: word_of_nat_eq_0_iff dest: nat_dvd_not_less)

text \<open>A change of the table with \<open>n > 0\<close> generation steps keeps the invariant, whatever the
  saver is doing.\<close>

lemma save_inv_changed:
  assumes "save_inv marshal unmarshal s" "sy_since s + Suc n < 2 ^ 64"
    and "go_table (st_positions st)" "st_dirty st"
    and "st_generation st = st_generation (sy_store s) + of_nat (Suc n)"
  shows "save_inv marshal unmarshal (s\<lparr>sy_store := st, sy_since := sy_since s + Suc n\<rparr>)"
  using assms unfolding save_inv_def by (auto split: saver.splits)

lemma save_inv_step:
  assumes codec: "json_codec marshal unmarshal" and inv: "save_inv marshal unmarshal s"
    and step: "save_step marshal s t"
  shows "save_inv marshal unmarshal t"
  using step
proof (cases rule: save_step.cases)
  case (update k p)
  have u: "go_table (map_set k p (st_positions (sy_store s)))"
    using inv update(3) by (simp add: save_inv_def go_table_map_set)
  show ?thesis
  proof (cases k p "sy_store s" rule: Set_cases)
    case 1
    with inv update(1) show ?thesis by simp
  next
    case 2
    then show ?thesis
      using update save_inv_changed [OF inv, where st = "Set k p (sy_store s)" and n = 0] u by simp
  qed
next
  case (clean olderThan stat)
  show ?thesis
  proof (cases olderThan stat "sy_store s" rule: Cleanup_cases)
    case 1
    with inv clean(1) show ?thesis by simp
  next
    case (2 P n)
    moreover have "go_table (filter P (st_positions (sy_store s)))"
      using inv by (simp add: save_inv_def go_table_filter)
    ultimately show ?thesis
      using clean save_inv_changed [OF inv, where st = "Cleanup olderThan stat (sy_store s)" and n = n]
      by (simp del: of_nat_Suc)
  qed
next
  case (start force b gen)
  then have "marshal (st_positions (sy_store s)) = Inr b" "gen = st_generation (sy_store s)"
    by (auto simp: save_begin_def split: if_splits sum.splits)
  with inv start show ?thesis by (simp add: save_inv_def)
next
  case (replace b gen)
  with inv json_codecD [OF codec] show ?thesis
    by (auto simp: save_inv_def split: if_splits)
next
  case (abort b gen)
  with inv show ?thesis by (auto simp: save_inv_def)
next
  case (commit gen)
  with inv show ?thesis
    by (auto simp: save_inv_def save_commit_def of_nat_word_zero split: if_splits)
qed

lemma save_inv_reachable:
  assumes "json_codec marshal unmarshal" "save_inv marshal unmarshal s"
    and "(save_step marshal)\<^sup>*\<^sup>* s t"
  shows "save_inv marshal unmarshal t"
  using assms(3,2) by (induction rule: rtranclp_induct) (auto intro: save_inv_step [OF assms(1)])

text \<open>The system after \<open>Load\<close>.\<close>

definition loaded :: "store \<Rightarrow> string option \<Rightarrow> save_system" where
  "loaded st main = \<lparr>sy_store = st, sy_main = main, sy_saver = SaverIdle, sy_since = 0\<rparr>"

lemma save_inv_loaded:
  assumes "Load unmarshal path (Inr main) = Inr (LoadedStore st)" "go_table (st_positions st)"
  shows "save_inv marshal unmarshal (loaded st main)"
  using assms Load_readback [OF assms(1)]
  by (auto simp: Load_def loaded_def save_inv_def persisted_def Let_def
      split: option.splits if_splits sum.splits)

section \<open>Properties\<close>

text \<open>C6. The flag \<open>dirty\<close> is honest.  From the state after \<open>Load\<close>, along any
  interleaving of position updates, clean-ups and saves that fail or succeed at any point,
  whenever the flag is not set the state file, read back as \<open>Load\<close> reads it, is the table in
  memory.  Keys and paths are valid UTF-8, offsets are \<open>int64\<close> numbers, the loaded file is
  not the JSON text \<open>null\<close>, fewer than \<open>2 ^ 64\<close> changes fall into one save, and the JSON
  coding decodes the tables it encoded.\<close>

theorem saved_when_clean:
  assumes "json_codec marshal unmarshal"
    and "Load unmarshal path (Inr main) = Inr (LoadedStore st)" "go_table (st_positions st)"
    and "(save_step marshal)\<^sup>*\<^sup>* (loaded st main) s" "\<not> st_dirty (sy_store s)"
  shows "persisted unmarshal (sy_main s) (st_positions (sy_store s))"
  using save_inv_reachable [OF assms(1) save_inv_loaded [OF assms(2,3)] assms(4)] assms(5)
  by (simp add: save_inv_def)

text \<open>A codec for the empty table and for one entry is enough for an example.\<close>

definition one_table :: positions where
  "one_table = [(''1:2'', \<lparr>PosPath = ''/a'', Offset = 3, UpdatedAt = 0\<rparr>)]"

definition one_marshal :: "positions \<Rightarrow> gerr + string" where
  "one_marshal ps = (if ps = one_table then Inr ''1'' else Inl (Errorf ''json''))"

definition one_unmarshal :: "string \<Rightarrow> gerr + positions option" where
  "one_unmarshal b = (if b = ''1'' then Inr (Some one_table) else Inl (Errorf ''json''))"

lemma four_steps: "R a b \<Longrightarrow> R b c \<Longrightarrow> R c d \<Longrightarrow> R d e \<Longrightarrow> R\<^sup>*\<^sup>* a e"
  by (blast intro: converse_rtranclp_into_rtranclp)

theorem saved_when_clean_witness:
  "persisted one_unmarshal (Some ''1'') one_table"
proof -
  define st where "st = \<lparr>st_path = ''p'', st_positions = [], st_dirty = False, st_generation = 0\<rparr>"
  define p where "p = \<lparr>PosPath = ''/a'', Offset = 3, UpdatedAt = 0\<rparr>"
  have load: "Load one_unmarshal ''p'' (Inr None) = Inr (LoadedStore st)" "go_table (st_positions st)"
    by (simp_all add: Load_def st_def go_table_def)
  have codec: "json_codec one_marshal one_unmarshal"
    by (simp add: json_codec_def one_marshal_def one_unmarshal_def)
  have utf8: "go_position ''1:2'' p"
    by (simp add: go_position_def valid_utf8_def p_def runes_of_bytes of_runes_bytes del: list.map)
  let ?s0 = "loaded st None"
  let ?s1 = "\<lparr>sy_store = Set ''1:2'' p st, sy_main = None, sy_saver = SaverIdle, sy_since = 1\<rparr>"
  let ?s2 = "?s1\<lparr>sy_saver := SaverBegun ''1'' 1, sy_since := 0\<rparr>"
  let ?s3 = "?s2\<lparr>sy_main := Some ''1'', sy_saver := SaverWritten 1\<rparr>"
  let ?s4 = "?s3\<lparr>sy_store := save_commit 1 (sy_store ?s3), sy_saver := SaverIdle\<rparr>"
  have set: "Set ''1:2'' p st = st\<lparr>st_positions := one_table, st_dirty := True, st_generation := 1\<rparr>"
    by (simp add: Set_def st_def one_table_def p_def map_set_def)
  have bump: "set_bump ''1:2'' p st = 1" by (simp add: set_bump_def set) (simp add: st_def)
  have 1: "save_step one_marshal ?s0 ?s1"
    using save_step.update [of ?s0 "''1:2''" p one_marshal] utf8 by (simp add: loaded_def bump)
  have 2: "save_step one_marshal ?s1 ?s2"
    by (rule save_step.start [of _ one_marshal False])
       (simp_all add: save_begin_def set one_marshal_def)
  have 3: "save_step one_marshal ?s2 ?s3"
    using save_step.replace [of ?s2 "''1''" 1 one_marshal] by simp
  have 4: "save_step one_marshal ?s3 ?s4"
    using save_step.commit [of ?s3 1 one_marshal] by simp
  note run = four_steps [of "save_step one_marshal", OF 1 2 3 4]
  from saved_when_clean [OF codec load run] show ?thesis by (simp add: save_commit_def set)
qed

end
