(* ===== verification/Retry.thy ===== *)
theory Retry
  imports Otlp Config StateStore
begin

text \<open>
  Sending a batch: \<open>send\<close>, \<open>parseRetryAfter\<close> and \<open>sendWithRetry\<close> of
  \<open>internal/exporter/otlphttp.go\<close>.  The libraries the code calls (protobuf, gzip, the HTTP
  client, the clock and the timer) are the operations \<open>net_ops\<close> on a network \<open>'n\<close>.
  The retry loop has no bound in the code, so it is a partial function: \<open>None\<close> is a call
  that never returns.
\<close>

section \<open>The environment\<close>

record http_request =
  rq_URL :: string
  rq_Headers :: smap
  rq_Body :: string

record http_response =
  rs_Status :: int
  rs_RetryAfter :: string
  rs_Body :: string
  rs_BodyErr :: "gerr option"

record 'n net_ops =
  no_marshal :: "resource_logs list \<Rightarrow> gerr + string"
  no_gzip :: "string \<Rightarrow> gerr + string"
  no_canonical :: "string \<Rightarrow> string"
  no_do :: "http_request \<Rightarrow> 'n \<Rightarrow> (gerr + http_response) \<times> 'n"
  no_decode :: "string \<Rightarrow> gerr + (int \<times> string) option"
  no_parse_duration :: "string \<Rightarrow> duration option"
  no_parse_http_time :: "string \<Rightarrow> time option"
  no_now :: "'n \<Rightarrow> time \<times> 'n"
  no_sleep :: "duration \<Rightarrow> 'n \<Rightarrow> gerr option \<times> 'n"

section \<open>One attempt\<close>

definition equal_fold_gzip :: "string \<Rightarrow> bool" where
  "equal_fold_gzip s \<longleftrightarrow> map ascii_upper (runes s) = map ascii_upper (runes ''gzip'')"

definition request_headers :: "'n net_ops \<Rightarrow> export_config \<Rightarrow> bool \<Rightarrow> smap" where
  "request_headers ops cfg compressed =
     foldl (\<lambda>h (k, v). map_set (no_canonical ops k) v h)
       ((if compressed then map_set ''Content-Encoding'' ''gzip'' else id)
          [(''Content-Type'', ''application/x-protobuf'')])
       (entries (ex_Headers cfg))"

definition parseRetryAfter :: "'n net_ops \<Rightarrow> string \<Rightarrow> 'n \<Rightarrow> duration \<times> 'n" where
  "parseRetryAfter ops value n =
     (if value = [] then (0, n)
      else (case no_parse_duration ops (value @ ''s'') of
              Some seconds \<Rightarrow> (seconds, n)
            | None \<Rightarrow>
                (case no_parse_http_time ops value of
                   None \<Rightarrow> (0, n)
                 | Some when \<Rightarrow>
                     (let (now, n) = no_now ops n; delay = when - now
                      in (if 0 < delay then delay else 0, n)))))"

definition check_response :: "'n net_ops \<Rightarrow> http_response \<Rightarrow> 'n \<Rightarrow> gerr option \<times> 'n" where
  "check_response ops resp n =
     (if rs_Status resp < 200 \<or> 300 \<le> rs_Status resp then
        (let data = take 4096 (rs_Body resp);
             (retryAfter, n) = parseRetryAfter ops (rs_RetryAfter resp) n
         in (Some (HTTPStatus (rs_Status resp) retryAfter
              (''OTLP HTTP status '' @ format_uint (nat (rs_Status resp)) @ '': '' @ trim_space data)), n))
      else
        (case rs_BodyErr resp of
           Some err \<Rightarrow> (Some err, n)
         | None \<Rightarrow>
             (let data = take (1024 * 1024) (rs_Body resp) in
              if data = [] then (None, n)
              else (case no_decode ops data of
                      Inl err \<Rightarrow> (Some (Errorf ''decode OTLP response''), n)
                    | Inr None \<Rightarrow> (None, n)
                    | Inr (Some (rejected, msg)) \<Rightarrow>
                        if 0 < rejected then (Some (Errorf ''OTLP partial success rejected''), n)
                        else (None, n)))))"

definition send :: "'n net_ops \<Rightarrow> export_config \<Rightarrow> log_record list \<Rightarrow> 'n \<Rightarrow> gerr option \<times> 'n" where
  "send ops cfg records n =
     (case no_marshal ops (BuildRequest records) of
        Inl err \<Rightarrow> (Some err, n)
      | Inr b \<Rightarrow>
     (case (if equal_fold_gzip (ex_Compression cfg)
            then (case no_gzip ops b of Inl err \<Rightarrow> Inl err | Inr z \<Rightarrow> Inr (z, True))
            else Inr (b, False)) of
        Inl err \<Rightarrow> (Some err, n)
      | Inr (body, compressed) \<Rightarrow>
          (case no_do ops \<lparr>rq_URL = ex_Endpoint cfg,
                  rq_Headers = request_headers ops cfg compressed, rq_Body = body\<rparr> n of
             (Inl err, n) \<Rightarrow> (Some err, n)
           | (Inr resp, n) \<Rightarrow> check_response ops resp n)))"

section \<open>Delays\<close>

text \<open>The conversion of an \<open>int64\<close> to \<open>float64\<close>: 53 significant bits, ties to even.\<close>

definition excess_bits :: "int \<Rightarrow> nat" where
  "excess_bits x = length (takeWhile (\<lambda>j. 2 ^ (53 + j) \<le> \<bar>x\<bar>) [0..<11])"

definition round_units :: "int \<Rightarrow> int \<Rightarrow> int" where
  "round_units x u = (let q = x div u; r = x mod u in
     if 2 * r < u \<or> (2 * r = u \<and> even q) then q else q + 1)"

definition to_float64 :: "int \<Rightarrow> int" where
  "to_float64 x = (let u = 2 ^ excess_bits x in sgn x * (round_units \<bar>x\<bar> u * u))"

text \<open>The conversion back; out of range it gives the least integer, as on amd64.\<close>

definition from_float64 :: "int \<Rightarrow> int" where
  "from_float64 x = (if - (2 ^ 63) \<le> x \<and> x < 2 ^ 63 then x else - (2 ^ 63))"

definition initial_delay :: "export_config \<Rightarrow> duration" where
  "initial_delay cfg = (let delay = rt_Initial (ex_Retry cfg) in if delay \<le> 0 then second else delay)"

definition max_interval :: "export_config \<Rightarrow> duration" where
  "max_interval cfg = (let mx = rt_MaxInterval (ex_Retry cfg) in if mx \<le> 0 then 30 * second else mx)"

definition next_delay :: "export_config \<Rightarrow> duration \<Rightarrow> duration" where
  "next_delay cfg delay =
     from_float64 (min (to_float64 (max_interval cfg)) (to_float64 (wrap64 (delay * 2))))"

section \<open>The retry loop\<close>

definition permanent :: "gerr \<Rightarrow> bool" where
  "permanent err = (case err of
     HTTPStatus status retryAfter msg \<Rightarrow> status \<noteq> 408 \<and> status \<noteq> 429 \<and> status < 500
   | _ \<Rightarrow> False)"

definition raised_delay :: "gerr \<Rightarrow> duration \<Rightarrow> duration" where
  "raised_delay err delay = (case err of
     HTTPStatus status retryAfter msg \<Rightarrow> if delay < retryAfter then retryAfter else delay
   | _ \<Rightarrow> delay)"

definition give_up_now :: "'n net_ops \<Rightarrow> export_config \<Rightarrow> time \<Rightarrow> duration \<Rightarrow> 'n \<Rightarrow> bool \<times> 'n" where
  "give_up_now ops cfg start delay n =
     (if \<not> rt_Enabled (ex_Retry cfg) then (True, n)
      else if 0 < rt_MaxElapsed (ex_Retry cfg) then
        (let (now, n) = no_now ops n
         in (rt_MaxElapsed (ex_Retry cfg) < wrap64 (now - start + delay), n))
      else (False, n))"

partial_function (option) retry_loop :: "'n net_ops \<Rightarrow> export_config \<Rightarrow> log_record list \<Rightarrow>
    time \<Rightarrow> duration \<Rightarrow> 'n \<Rightarrow> (gerr option \<times> 'n) option" where
  "retry_loop ops cfg records start delay n =
     (case send ops cfg records n of
        (None, n) \<Rightarrow> Some (None, n)
      | (Some err, n) \<Rightarrow>
          if permanent err then Some (Some err, n)
          else
            (case give_up_now ops cfg start (raised_delay err delay) n of
               (stop, n) \<Rightarrow>
                 if stop then Some (Some err, n)
                 else (case no_sleep ops (raised_delay err delay) n of
                         (Some cancelled, n) \<Rightarrow> Some (Some cancelled, n)
                       | (None, n) \<Rightarrow>
                           retry_loop ops cfg records start (next_delay cfg (raised_delay err delay)) n)))"

definition sendWithRetry :: "'n net_ops \<Rightarrow> export_config \<Rightarrow> log_record list \<Rightarrow> 'n \<Rightarrow>
    (gerr option \<times> 'n) option" where
  "sendWithRetry ops cfg records n =
     (let (start, n) = no_now ops n in retry_loop ops cfg records start (initial_delay cfg) n)"

section \<open>Delays\<close>

lemma excess_bits_small: "\<bar>x\<bar> < 2 ^ 53 \<Longrightarrow> excess_bits x = 0"
  by (simp add: excess_bits_def upt_rec)

lemma to_float64_small: "\<bar>x\<bar> < 2 ^ 53 \<Longrightarrow> to_float64 x = x"
  by (simp add: to_float64_def excess_bits_small round_units_def Let_def abs_if sgn_if)

lemma max_interval_pos: "0 < max_interval cfg"
  by (simp add: max_interval_def Let_def second_def)

text \<open>Exponential back-off: below 26 days the delay doubles up to \<open>max_interval\<close>.\<close>

lemma next_delay_doubles:
  assumes "0 < delay" "delay \<le> 2 ^ 51" "max_interval cfg \<le> 2 ^ 51"
  shows "next_delay cfg delay = min (max_interval cfg) (2 * delay)"
proof -
  have "wrap64 (delay * 2) = 2 * delay" using assms(1,2) by (subst wrap64_id) auto
  moreover have "to_float64 (2 * delay) = 2 * delay" using assms(1,2) by (intro to_float64_small) auto
  moreover have "to_float64 (max_interval cfg) = max_interval cfg"
    using assms(3) max_interval_pos [of cfg] by (intro to_float64_small) auto
  ultimately show ?thesis
    using assms max_interval_pos [of cfg] by (simp add: next_delay_def from_float64_def min_def)
qed

lemma initial_delay_pos: "0 < initial_delay cfg"
  by (simp add: initial_delay_def Let_def second_def)

lemma raised_delay_ge: "delay \<le> raised_delay err delay"
  by (simp add: raised_delay_def split: gerr.split)

section \<open>The result of the loop\<close>

text \<open>A success is the success of an attempt; an error is that of an attempt or of the context.\<close>

lemma retry_loop_result:
  assumes "retry_loop ops cfg records start delay n = Some y"
  shows "(fst y = None \<longrightarrow> (\<exists>m. send ops cfg records m = y))
    \<and> (\<forall>x. fst y = Some x \<longrightarrow> (\<exists>m m'. send ops cfg records m = (Some x, m'))
          \<or> (\<exists>d m. no_sleep ops d m = y))"
proof (rule retry_loop.raw_induct [where P = "\<lambda>ops cfg records start delay n y.
      (fst y = None \<longrightarrow> (\<exists>m. send ops cfg records m = y))
      \<and> (\<forall>x. fst y = Some x \<longrightarrow> (\<exists>m m'. send ops cfg records m = (Some x, m'))
            \<or> (\<exists>d m. no_sleep ops d m = y))", OF _ assms], goal_cases)
  case (1 loop ops cfg records start delay n y)
  obtain err m where s: "send ops cfg records n = (err, m)" by fastforce
  show ?case
  proof (cases err)
    case None
    with 1(2) s have "y = (None, m)" by simp
    with s None show ?thesis by auto
  next
    case (Some x)
    obtain stop m1 where g: "give_up_now ops cfg start (raised_delay x delay) m = (stop, m1)" by fastforce
    obtain c m2 where z: "no_sleep ops (raised_delay x delay) m1 = (c, m2)" by fastforce
    from 1(2) s Some g z 1(1) show ?thesis
      by (cases "permanent x"; cases stop; cases c) (auto 4 3)
  qed
qed

lemma sendWithRetry_result:
  assumes "sendWithRetry ops cfg records n = Some (err, n')"
  shows "case err of
      None \<Rightarrow> \<exists>m. send ops cfg records m = (None, n')
    | Some x \<Rightarrow> (\<exists>m m'. send ops cfg records m = (Some x, m')) \<or> (\<exists>d m. no_sleep ops d m = (Some x, n'))"
  using assms retry_loop_result [of ops cfg records _ "initial_delay cfg" _ "(err, n')"]
  by (auto simp: sendWithRetry_def split: prod.splits option.split)

text \<open>A permanent answer of the server is final.\<close>

lemma sendWithRetry_permanent:
  assumes "no_now ops n = (start, m)" "send ops cfg records m = (Some err, n')" "permanent err"
  shows "sendWithRetry ops cfg records n = Some (Some err, n')"
  using assms by (simp add: sendWithRetry_def retry_loop.simps)

section \<open>The loop ends\<close>

text \<open>A clock that does not run backwards, calls that take at most \<open>D\<close>, and a timer that
  takes its time.\<close>

definition timed :: "'n net_ops \<Rightarrow> ('n \<Rightarrow> time) \<Rightarrow> duration \<Rightarrow> bool" where
  "timed ops clock D \<longleftrightarrow>
     (\<forall>n. fst (no_now ops n) = clock n \<and> clock n \<le> clock (snd (no_now ops n))
        \<and> clock (snd (no_now ops n)) \<le> clock n + D)
     \<and> (\<forall>rq n. clock n \<le> clock (snd (no_do ops rq n)) \<and> clock (snd (no_do ops rq n)) \<le> clock n + D)
     \<and> (\<forall>d n n'. no_sleep ops d n = (None, n') \<longrightarrow> clock n + d \<le> clock n' \<and> clock n' \<le> clock n + d + D)"

lemma timed_now: "timed ops clock D \<Longrightarrow> no_now ops n = (t, n') \<Longrightarrow>
    t = clock n \<and> clock n \<le> clock n' \<and> clock n' \<le> clock n + D"
  unfolding timed_def by (metis fst_conv snd_conv)

lemma timed_do: "timed ops clock D \<Longrightarrow> no_do ops rq n = (a, n') \<Longrightarrow>
    clock n \<le> clock n' \<and> clock n' \<le> clock n + D"
  unfolding timed_def by (metis snd_conv)

lemma timed_nonneg: "timed ops clock D \<Longrightarrow> 0 \<le> D"
  using timed_now [of ops clock D] by (metis add_le_same_cancel1 order_trans prod.collapse le_add_same_cancel1)

lemma parseRetryAfter_clock:
  assumes "timed ops clock D" "parseRetryAfter ops v n = (d, n')"
  shows "clock n \<le> clock n' \<and> clock n' \<le> clock n + D"
  using assms timed_nonneg [OF assms(1)]
  by (auto simp: parseRetryAfter_def Let_def split: if_splits option.splits prod.splits
      dest: timed_now)

lemma check_response_clock:
  assumes "timed ops clock D" "check_response ops resp n = (err, n')"
  shows "clock n \<le> clock n' \<and> clock n' \<le> clock n + D"
  using assms timed_nonneg [OF assms(1)]
  by (auto simp: check_response_def Let_def split: if_splits option.splits prod.splits sum.splits
      dest: parseRetryAfter_clock)

lemma send_clock:
  assumes "timed ops clock D" "send ops cfg records n = (err, n')"
  shows "clock n \<le> clock n' \<and> clock n' \<le> clock n + 2 * D"
proof -
  have "clock n \<le> clock m \<and> clock m \<le> clock n + 2 * D"
    if "no_do ops rq n = (a, k)" "(case a of Inl e \<Rightarrow> (Some e, k) | Inr resp \<Rightarrow> check_response ops resp k) = (e2, m)"
    for rq a k m e2
    using that timed_do [OF assms(1) that(1)] check_response_clock [OF assms(1), of _ k e2 m]
      timed_nonneg [OF assms(1)] by (cases a) force+
  with assms timed_nonneg [OF assms(1)] show ?thesis
    by (auto simp: send_def split: sum.splits if_splits prod.splits)
qed

text \<open>What the loop needs of its configuration, and of the delays a server asks for: about 26
  days for the settings and 146 years for \<open>Retry-After\<close>.\<close>

definition bounded_retry :: "'n net_ops \<Rightarrow> export_config \<Rightarrow> log_record list \<Rightarrow> duration \<Rightarrow> bool" where
  "bounded_retry ops cfg records D \<longleftrightarrow>
     0 < rt_MaxElapsed (ex_Retry cfg) \<and> rt_MaxElapsed (ex_Retry cfg) \<le> 2 ^ 51
     \<and> max_interval cfg \<le> 2 ^ 51 \<and> initial_delay cfg \<le> 2 ^ 51 \<and> D \<le> 2 ^ 51
     \<and> (\<forall>n err n'. send ops cfg records n = (Some err, n') \<longrightarrow> raised_delay err 0 \<le> 2 ^ 62)"

lemma raised_delay_bound:
  "raised_delay err 0 \<le> b \<Longrightarrow> delay \<le> b \<Longrightarrow> raised_delay err delay \<le> b"
  by (auto simp: raised_delay_def split: gerr.splits if_splits)

text \<open>The measure is the time left; \<open>6 * D\<close> covers the calls of one turn.\<close>

lemma retry_loop_ends:
  assumes timed: "timed ops clock D" and bd: "bounded_retry ops cfg records D"
    and "0 < delay" "delay \<le> 2 ^ 62" "start \<le> clock n"
    and "clock n \<le> start + rt_MaxElapsed (ex_Retry cfg) + 2 * D"
  shows "\<exists>y. retry_loop ops cfg records start delay n = Some y"
  using assms(3-)
proof (induction "nat (start + rt_MaxElapsed (ex_Retry cfg) + 2 * D - clock n)"
    arbitrary: delay n rule: less_induct)
  case less
  let ?M = "rt_MaxElapsed (ex_Retry cfg)"
  have D: "0 \<le> D" using timed by (rule timed_nonneg)
  have M: "0 < ?M" "?M \<le> 2 ^ 51" "D \<le> 2 ^ 51" using bd by (simp_all add: bounded_retry_def)
  obtain err m where s: "send ops cfg records n = (err, m)" by fastforce
  note m = send_clock [OF timed s]
  show ?case
  proof (cases err)
    case None
    with s show ?thesis by (simp add: retry_loop.simps)
  next
    case (Some x)
    let ?d = "raised_delay x delay"
    have d: "0 < ?d" "?d \<le> 2 ^ 62"
      using less.prems(1,2) raised_delay_ge [of delay x] raised_delay_bound [of x "2 ^ 62" delay]
        bd s Some by (auto simp: bounded_retry_def)
    obtain stop m1 where g: "give_up_now ops cfg start ?d m = (stop, m1)" by fastforce
    obtain c m2 where z: "no_sleep ops ?d m1 = (c, m2)" by fastforce
    show ?thesis
    proof (cases "permanent x \<or> stop \<or> c \<noteq> None")
      case True
      with s Some g z show ?thesis by (subst retry_loop.simps) (auto split: option.split)
    next
      case False
      then obtain t where t: "no_now ops m = (t, m1)" "\<not> ?M < wrap64 (t - start + ?d)"
        using g M(1) by (auto simp: give_up_now_def Let_def split: if_splits prod.splits)
      note t1 = timed_now [OF timed t(1)]
      have "0 \<le> t - start" "t - start \<le> 2 ^ 51 + 4 * 2 ^ 51"
        using t1 m less.prems(3,4) M D by linarith+
      then have "wrap64 (t - start + ?d) = t - start + ?d" using d by (intro wrap64_id) auto
      with t(2) have le: "t - start + ?d \<le> ?M" by simp
      have m2: "clock m1 + ?d \<le> clock m2" "clock m2 \<le> clock m1 + ?d + D"
        using timed z False unfolding timed_def by auto
      have "next_delay cfg ?d = min (max_interval cfg) (2 * ?d)"
        using d(1) le \<open>0 \<le> t - start\<close> M(2) bd by (intro next_delay_doubles) (auto simp: bounded_retry_def)
      then have nd: "0 < next_delay cfg ?d" "next_delay cfg ?d \<le> 2 ^ 62"
        using max_interval_pos [of cfg] d(1) bd by (auto simp: bounded_retry_def)
      have "\<exists>y. retry_loop ops cfg records start (next_delay cfg ?d) m2 = Some y"
        using nd m m2 t1 le D less.prems d(1) by (intro less.hyps) linarith+
      with s Some g z False show ?thesis by (subst retry_loop.simps) auto
    qed
  qed
qed

lemma sendWithRetry_ends:
  assumes "timed ops clock D" "bounded_retry ops cfg records D \<or> \<not> rt_Enabled (ex_Retry cfg)"
  shows "\<exists>y. sendWithRetry ops cfg records n = Some y"
proof -
  obtain start m where n: "no_now ops n = (start, m)" by fastforce
  note t = timed_now [OF assms(1) n] timed_nonneg [OF assms(1)]
  show ?thesis
  proof (cases "rt_Enabled (ex_Retry cfg)")
    case True
    with assms(2) have bd: "bounded_retry ops cfg records D" by simp
    then have "initial_delay cfg \<le> 2 ^ 62" by (auto simp: bounded_retry_def)
    with bd t have "\<exists>y. retry_loop ops cfg records start (initial_delay cfg) m = Some y"
      by (intro retry_loop_ends [OF assms(1) bd initial_delay_pos]) (auto simp: bounded_retry_def)
    with n show ?thesis by (simp add: sendWithRetry_def)
  next
    case False
    then show ?thesis
      by (auto simp: sendWithRetry_def n retry_loop.simps give_up_now_def split: prod.split option.split)
  qed
qed

text \<open>The limit on the whole time is compared after a 64-bit addition, which a huge
  \<open>Retry-After\<close> makes wrap round: the loop then waits although the limit has passed.\<close>

lemma elapsed_wraps:
  assumes "0 < e" "e < 2 ^ 62" "delay = 2 ^ 63 - 1"
  shows "wrap64 (e + delay) < 0"
proof -
  have "e + delay + 2 ^ 63 = (e - 1) + 2 ^ 64" using assms(3) by simp
  then have "(e + delay + 2 ^ 63) mod 2 ^ 64 = (e - 1) mod 2 ^ 64" by (simp only: mod_add_self2)
  also have "\<dots> = e - 1" using assms(1,2) by (intro mod_pos_pos_trivial) simp_all
  finally show ?thesis using assms(2) by (simp add: wrap64_def)
qed

section \<open>Properties\<close>

text \<open>C11. \<open>sendWithRetry\<close> returns: with retries disabled after one attempt, and with a limit
  on the whole time after finitely many, if the clock does not run backwards, calls take at
  most \<open>D\<close>, and the settings and the delays the server asks for are below the bounds at
  which the 64-bit sums would wrap.\<close>

theorem sendWithRetry_returns:
  assumes "timed ops clock D" "bounded_retry ops cfg records D \<or> \<not> rt_Enabled (ex_Retry cfg)"
  shows "\<exists>y. sendWithRetry ops cfg records n = Some y"
  by (rule sendWithRetry_ends [OF assms])

text \<open>An example network: the clock is the network, and every answer is 503.\<close>

definition busy_ops :: "time net_ops" where
  "busy_ops = \<lparr>no_marshal = (\<lambda>r. Inr ''pb''), no_gzip = Inr, no_canonical = id,
     no_do = (\<lambda>rq n. (Inr \<lparr>rs_Status = 503, rs_RetryAfter = [], rs_Body = [], rs_BodyErr = None\<rparr>, n + 1)),
     no_decode = (\<lambda>b. Inr None), no_parse_duration = (\<lambda>s. None), no_parse_http_time = (\<lambda>s. None),
     no_now = (\<lambda>n. (n, n)), no_sleep = (\<lambda>d n. (None, n + d))\<rparr>"

definition retry_defaults :: export_config where
  "retry_defaults = (cf_Export defaults)\<lparr>ex_Endpoint := ''e''\<rparr>"

lemma busy_send:
  "send busy_ops retry_defaults records n = (Some (HTTPStatus 503 0 (''OTLP HTTP status '' @ format_uint 503
      @ '': '' @ trim_space [])), n + 1)"
  by (simp add: send_def busy_ops_def check_response_def parseRetryAfter_def retry_defaults_def
      defaults_def equal_fold_gzip_def Let_def runes_of_bytes)

theorem sendWithRetry_returns_witness:
  "\<exists>y. sendWithRetry busy_ops retry_defaults [] 0 = Some y"
proof (rule sendWithRetry_returns)
  show "timed busy_ops id 1" by (auto simp: timed_def busy_ops_def)
  show "bounded_retry busy_ops retry_defaults [] 1 \<or> \<not> rt_Enabled (ex_Retry retry_defaults)"
    unfolding bounded_retry_def busy_send
    by (simp add: retry_defaults_def defaults_def max_interval_def initial_delay_def
        second_def minute_def raised_delay_def)
qed

text \<open>C31. The result is honest: nil means that an attempt to send the batch succeeded, and an
  error is the error of an attempt or of the cancelled wait.\<close>

theorem sendWithRetry_honest:
  assumes "sendWithRetry ops cfg records n = Some (err, n')"
  shows "case err of
      None \<Rightarrow> \<exists>m. send ops cfg records m = (None, n')
    | Some x \<Rightarrow> (\<exists>m m'. send ops cfg records m = (Some x, m')) \<or> (\<exists>d m. no_sleep ops d m = (Some x, n'))"
  by (rule sendWithRetry_result [OF assms])

text \<open>C32. A permanent answer, which is a status below 500 other than 408 and 429, is not
  retried: the first attempt decides.\<close>

theorem permanent_not_retried:
  assumes "no_now ops n = (start, m)" "send ops cfg records m = (Some (HTTPStatus status ra msg), n')"
    and "status < 500" "status \<noteq> 408" "status \<noteq> 429"
  shows "sendWithRetry ops cfg records n = Some (Some (HTTPStatus status ra msg), n')"
  using assms by (intro sendWithRetry_permanent) (simp_all add: permanent_def)

definition refusing_ops :: "time net_ops" where
  "refusing_ops = busy_ops\<lparr>no_do := (\<lambda>rq n.
     (Inr \<lparr>rs_Status = 400, rs_RetryAfter = [], rs_Body = [], rs_BodyErr = None\<rparr>, n + 1))\<rparr>"

lemma refusing_send:
  "send refusing_ops retry_defaults records n = (Some (HTTPStatus 400 0 (''OTLP HTTP status '' @ format_uint 400
      @ '': '' @ trim_space [])), n + 1)"
  by (simp add: send_def refusing_ops_def busy_ops_def check_response_def parseRetryAfter_def
      retry_defaults_def defaults_def equal_fold_gzip_def Let_def runes_of_bytes)

theorem permanent_not_retried_witness:
  "sendWithRetry refusing_ops retry_defaults [] 0 = Some (Some (HTTPStatus 400 0
     (''OTLP HTTP status '' @ format_uint 400 @ '': '' @ trim_space [])), 1)"
  using permanent_not_retried [OF _ refusing_send, of 0 0] by (simp add: refusing_ops_def busy_ops_def)

theorem sendWithRetry_honest_witness:
  "(\<exists>m m'. send refusing_ops retry_defaults [] m = (Some (HTTPStatus 400 0
       (''OTLP HTTP status '' @ format_uint 400 @ '': '' @ trim_space [])), m'))
   \<or> (\<exists>d m. no_sleep refusing_ops d m = (Some (HTTPStatus 400 0
       (''OTLP HTTP status '' @ format_uint 400 @ '': '' @ trim_space [])), 1))"
proof -
  have "no_now refusing_ops 0 = (0, 0)" by (simp add: refusing_ops_def busy_ops_def)
  from sendWithRetry_permanent [OF this refusing_send [of "[]"]]
  have "sendWithRetry refusing_ops retry_defaults [] 0 = Some (Some (HTTPStatus 400 0
     (''OTLP HTTP status '' @ format_uint 400 @ '': '' @ trim_space [])), 1)"
    by (simp add: permanent_def)
  from sendWithRetry_honest [OF this] show ?thesis by simp
qed

text \<open>The back-off doubles the delay up to the maximal interval, exactly as long as the
  delays are below 26 days, where the conversion to \<open>float64\<close> and back loses nothing.\<close>

theorem backoff_doubles:
  assumes "0 < delay" "delay \<le> 2 ^ 51" "max_interval cfg \<le> 2 ^ 51"
  shows "next_delay cfg delay = min (max_interval cfg) (2 * delay)"
  by (rule next_delay_doubles [OF assms])

theorem backoff_doubles_witness:
  "next_delay retry_defaults (20 * second) = 30 * second"
  using backoff_doubles [of "20 * second" retry_defaults]
  by (simp add: retry_defaults_def defaults_def max_interval_def second_def)

text \<open>C40. The limit on the whole time fails for a huge \<open>Retry-After\<close>: the sum of the elapsed
  time and the delay wraps round to a negative number, so the loop does not give up although
  the limit has passed, and waits for the 292 years the server asked for.\<close>

theorem elapsed_limit_wraps:
  assumes "rt_Enabled (ex_Retry cfg)" "0 < rt_MaxElapsed (ex_Retry cfg)"
    and "no_now ops n = (start + e, n')" "0 < e" "e < 2 ^ 62"
  shows "give_up_now ops cfg start (2 ^ 63 - 1) n = (False, n')"
  using assms elapsed_wraps [OF assms(4,5) refl] by (simp add: give_up_now_def)

theorem elapsed_limit_wraps_witness:
  "give_up_now busy_ops retry_defaults 0 (2 ^ 63 - 1) (10 * minute) = (False, 10 * minute)"
  by (rule elapsed_limit_wraps [where e = "10 * minute"])
     (simp_all add: retry_defaults_def defaults_def busy_ops_def minute_def second_def)

end
