(* ===== verification/Pipeline.thy ===== *)
theory Pipeline
  imports FlowControl Flushing ExportQueue StoreSystem Retry
begin

text \<open>
  How \<open>internal/app/app.go\<close> puts the parts together: the outputs behind the limiter
  (\<open>submitRecord\<close> and the closure \<open>submit\<close>), and the limiter as the function the tailer
  emits to.  The tailer's interface \<open>sink\<close> is interpreted on that limiter.
\<close>

section \<open>The outputs\<close>

text \<open>Errors of the outputs are logged and swallowed.\<close>

definition submitRecord :: "(log_record \<Rightarrow> 'x \<Rightarrow> gerr option \<times> 'x) option \<Rightarrow>
    (log_record \<Rightarrow> 'x \<Rightarrow> gerr option \<times> 'x) option \<Rightarrow> log_record \<Rightarrow> 'x \<Rightarrow> gerr option \<times> 'x" where
  "submitRecord sendWebhook sendExport r x =
     (let x = (case sendWebhook of None \<Rightarrow> x | Some f \<Rightarrow> snd (f r x));
          x = (case sendExport of None \<Rightarrow> x | Some f \<Rightarrow> snd (f r x))
      in (None, x))"

record ('h, 'n) outputs =
  ou_hook :: 'h
  ou_queue :: "action list \<times> 'n exporter"

definition hook_output :: "(log_record \<Rightarrow> 'h \<Rightarrow> gerr option \<times> 'h) \<Rightarrow> log_record \<Rightarrow>
    ('h, 'n) outputs \<Rightarrow> gerr option \<times> ('h, 'n) outputs" where
  "hook_output hook r x = (case hook r (ou_hook x) of (err, h) \<Rightarrow> (err, x\<lparr>ou_hook := h\<rparr>))"

definition export_output :: "export_config \<Rightarrow> 'n sender \<Rightarrow> log_record \<Rightarrow>
    ('h, 'n) outputs \<Rightarrow> gerr option \<times> ('h, 'n) outputs" where
  "export_output cfg sd r x =
     (case Enqueue cfg sd r (ou_queue x) of (err, q) \<Rightarrow> (err, x\<lparr>ou_queue := q\<rparr>))"

definition submit :: "export_config \<Rightarrow> 'n sender \<Rightarrow> (log_record \<Rightarrow> 'h \<Rightarrow> gerr option \<times> 'h) option \<Rightarrow>
    bool \<Rightarrow> log_record \<Rightarrow> ('h, 'n) outputs \<Rightarrow> gerr option \<times> ('h, 'n) outputs" where
  "submit cfg sd hook active r x =
     submitRecord (map_option hook_output hook) (if active then Some (export_output cfg sd) else None) r x"

lemma submit_nil: "fst (submit cfg sd hook active r x) = None"
  by (simp add: submit_def submitRecord_def Let_def)

section \<open>The tailer's downstream\<close>

definition pipeline_env :: "flow_control_config \<Rightarrow> 'b bucket_ops \<Rightarrow> ('x \<Rightarrow> time \<times> 'x) \<Rightarrow>
    (string \<Rightarrow> regexp option) \<Rightarrow> (string \<Rightarrow> time option) \<Rightarrow>
    (log_record \<Rightarrow> 'x \<Rightarrow> gerr option \<times> 'x) \<Rightarrow> ('b, 'x) flow env" where
  "pipeline_env cfg ops now compile parse_time next =
     \<lparr>env_emit = Submit cfg ops now next,
      env_now = (\<lambda>s. case now (fl_next s) of (t, x) \<Rightarrow> (t, s\<lparr>fl_next := x\<rparr>)),
      env_compile = compile, env_parse_time = parse_time\<rparr>"

definition submitted :: "('b, 'x) flow \<Rightarrow> log_record list" where
  "submitted s = map snd (fl_log s)"

interpretation pipe: sink "pipeline_env cfg ops now compile parse_time next" submitted
  for cfg ops now compile parse_time "next"
proof unfold_locales
  fix r w w'
  show "env_emit (pipeline_env cfg ops now compile parse_time next) r w = (None, w')
      \<Longrightarrow> submitted w' = submitted w @ [r]"
    using Submit_log [of cfg ops now "next" r w] by (auto simp: pipeline_env_def submitted_def)
  fix err
  show "env_emit (pipeline_env cfg ops now compile parse_time next) r w = (Some err, w')
      \<Longrightarrow> submitted w' = submitted w"
    using Submit_log [of cfg ops now "next" r w] by (auto simp: pipeline_env_def submitted_def)
  fix t
  show "env_now (pipeline_env cfg ops now compile parse_time next) w = (t, w')
      \<Longrightarrow> submitted w' = submitted w"
    by (auto simp: pipeline_env_def submitted_def split: prod.splits)
qed

section \<open>Example data\<close>

definition example_pattern :: regexp where
  "example_pattern = RCat RBeginText (RClass [(65, 65)])"

definition example_target :: "string \<Rightarrow> file_target" where
  "example_target start = \<lparr>Path = ''/var/log/a'', ReportedPath = [], SourceType = ''file'', Rule = ''r'',
     StartAt = ''beginning'', Format = [], Multiline = \<lparr>StartPattern = start, FlushAfter = 0\<rparr>,
     Attributes = None, Extractors = [], TraceIDExtractor = None, TraceIDCompletion = False,
     DropLevels = [], ResourceAttributes = Some [], ResourceKey = []\<rparr>"

definition example_flow :: flow_control_config where
  "example_flow = \<lparr>fc_Enabled = False, fc_RatePerSecond = Finite 1000 0, fc_Burst = 2000,
     fc_Mode = ''block'', fc_ReportInterval = 10 * second\<rparr>"

definition example_bucket :: "unit bucket_ops" where
  "example_bucket = \<lparr>bo_allow = (\<lambda>b. (True, b)), bo_wait = (\<lambda>b. (None, b))\<rparr>"

definition example_now :: "unit \<Rightarrow> time \<times> unit" where "example_now x = (0, x)"
definition example_compile :: "string \<Rightarrow> regexp option" where
  "example_compile p = Some example_pattern"
definition example_parse :: "string \<Rightarrow> time option" where "example_parse t = None"
definition example_next :: "log_record \<Rightarrow> unit \<Rightarrow> gerr option \<times> unit" where
  "example_next r x = (None, x)"

definition example_env :: "(unit, unit) flow env" where
  "example_env = pipeline_env example_flow example_bucket example_now example_compile
     example_parse example_next"

definition example_store :: store where
  "example_store = \<lparr>st_path = ''p'', st_positions = [], st_dirty = False, st_generation = 0\<rparr>"

definition example_tailer :: "(unit, unit) flow tailer" where
  "example_tailer = \<lparr>tl_state = example_store, tl_pending = [], tl_next = 0,
     tl_world = new_limiter () 0 ()\<rparr>"

definition example_limits :: limits where
  "example_limits = \<lparr>lim_read = 100, lim_log = 10, lim_multiline = 10, lim_lines = 3\<rparr>"

definition example_fs :: "string \<Rightarrow> string \<Rightarrow> gerr + file_view" where
  "example_fs data path =
     Inr \<lparr>fv_stat = Inr (Some (1, 2), int (length data)), fv_data = data, fv_end = EOF\<rparr>"

lemma example_readable: "readable (example_fs data) (example_target p) (1, 2) (int (length data)) data"
  by (simp add: readable_def example_fs_def)

lemma example_start: "start_offset example_store info (example_target p) n = (if n < 0 then 0 else 0)"
  by (simp add: start_offset_def read_offset_def Get_def example_store_def example_target_def)

lemma example_fields [simp]:
  "StartPattern (Multiline (example_target p)) = p" "tl_state example_tailer = example_store"
  "tl_pending example_tailer = []" "submitted (tl_world example_tailer) = []"
  by (simp_all add: example_target_def example_tailer_def new_limiter_def submitted_def)

lemma example_limits_ok: "small_limit example_limits"
  by (simp add: small_limit_def example_limits_def)

lemmas example_simps = example_readable example_start example_limits_ok

definition example_round :: "string \<Rightarrow> string \<Rightarrow> gerr option \<times> (unit, unit) flow tailer" where
  "example_round data start =
     read example_env example_limits (example_fs data) (example_target start) example_tailer"

section \<open>Properties\<close>

text \<open>C3. A round on a file with multi-line merging loses, doubles and reorders no non-blank
  line, whatever fails.  Some number \<open>n\<close> of the lines of the round is accepted (all of them
  if and only if the round returns nil), the offset stored for the file is the one after these
  lines, and the bodies handed downstream followed by the body still buffered are exactly the
  lines that were buffered before followed by the accepted lines.  Every body handed over is
  within the limits and only its first line matches the start pattern; bodies of a dropped
  level are left out.\<close>

theorem round_merges_lines:
  assumes "readable fs target info fsize data" "small_limit lim"
    and "0 \<le> start_offset (tl_state s) info target fsize"
    and "StartPattern (Multiline target) \<noteq> []"
    and "buffers_ok lim (tl_pending s)"
    and "same_rule (pipeline_env cfg ops now compile parse_time next) target (identity_key info) (tl_pending s)"
    and "read (pipeline_env cfg ops now compile parse_time next) lim fs target s = (err, s')"
    and "off = start_offset (tl_state s) info target fsize" "ls = round_lines lim off data"
  shows "\<exists>n rs bs. n \<le> length ls \<and> (err = None \<longleftrightarrow> n = length ls)
    \<and> submitted (tl_world s') = submitted (tl_world s) @ rs
    \<and> map Body rs = filter (kept_body target) bs
    \<and> concat (map body_lines bs) @ buffered (identity_key info) (tl_pending s') =
        buffered (identity_key info) (tl_pending s) @ nonblank (map (\<lambda>l.
          merged_text (pipeline_env cfg ops now compile parse_time next) lim target (bounded_line lim l)) (take n ls))
    \<and> list_all (body_ok (pipeline_env cfg ops now compile parse_time next) lim target) bs
    \<and> buffers_ok lim (tl_pending s')
    \<and> stored_offset (tl_state s') (identity_key info) = offset_after off ls n"
  using pipe.read_merged [OF assms] unfolding merged_step_def by blast

theorem round_merges_lines_witness:
  "\<exists>n rs bs. n \<le> 3 \<and> (fst (example_round ''A1\<newline>b\<newline>A2\<newline>c'' ''A'') = None \<longleftrightarrow> n = 3)
    \<and> submitted (tl_world (snd (example_round ''A1\<newline>b\<newline>A2\<newline>c'' ''A''))) = rs
    \<and> map Body rs = filter (kept_body (example_target ''A'')) bs
    \<and> stored_offset (tl_state (snd (example_round ''A1\<newline>b\<newline>A2\<newline>c'' ''A''))) (identity_key (1, 2))
        = offset_after 0 [''A1'', ''b'', ''A2''] n"
proof -
  have ls: "[''A1'', ''b'', ''A2''] = round_lines example_limits 0 ''A1\<newline>b\<newline>A2\<newline>c''"
    by (simp add: round_lines_def complete_lines_def example_limits_def)
  let ?R = "example_round ''A1\<newline>b\<newline>A2\<newline>c'' ''A''"
  have run: "read example_env example_limits (example_fs ''A1\<newline>b\<newline>A2\<newline>c'') (example_target ''A'')
      example_tailer = (fst ?R, snd ?R)" by (simp add: example_round_def)
  have hyps: "0 \<le> start_offset (tl_state example_tailer) (1, 2) (example_target ''A'')
        (int (length ''A1\<newline>b\<newline>A2\<newline>c''))"
      "StartPattern (Multiline (example_target ''A'')) \<noteq> []"
      "buffers_ok example_limits (tl_pending example_tailer)"
      "same_rule example_env (example_target ''A'') (identity_key (1, 2)) (tl_pending example_tailer)"
      "0 = start_offset (tl_state example_tailer) (1, 2) (example_target ''A'')
        (int (length ''A1\<newline>b\<newline>A2\<newline>c''))"
    by (simp_all add: example_start buffers_ok_def same_rule_def)
  obtain n rs bs where "n \<le> length [''A1'', ''b'', ''A2'']"
    "fst ?R = None \<longleftrightarrow> n = length [''A1'', ''b'', ''A2'']"
    "submitted (tl_world (snd ?R)) = submitted (tl_world example_tailer) @ rs"
    "map Body rs = filter (kept_body (example_target ''A'')) bs"
    "stored_offset (tl_state (snd ?R)) (identity_key (1, 2)) = offset_after 0 [''A1'', ''b'', ''A2''] n"
    using round_merges_lines [where cfg = example_flow and ops = example_bucket and now = example_now
        and compile = example_compile and parse_time = example_parse and ?next = example_next,
        folded example_env_def, OF example_readable example_limits_ok hyps(1-4) run hyps(5) ls]
    by (elim exE conjE) (rule that)
  then show ?thesis by (intro exI [of _ n] exI [of _ rs] exI [of _ bs]) (simp add: numeral_3_eq_3)
qed

text \<open>C7. A round on a file without merging hands over one record for each accepted line, in
  the order of the file, the lines of dropped levels left out: each is the record
  \<open>preparedRecord\<close> makes of the bounded line, up to the time stamps.  The accepted lines are
  all lines of the round if and only if it returns nil, and the stored offset is after them.\<close>

theorem round_emits_lines:
  assumes "readable fs target info fsize data" "small_limit lim"
    and "0 \<le> start_offset (tl_state s) info target fsize"
    and "StartPattern (Multiline target) = []"
    and "read (pipeline_env cfg ops now compile parse_time next) lim fs target s = (err, s')"
    and "off = start_offset (tl_state s) info target fsize" "ls = round_lines lim off data"
  shows "\<exists>n rs. n \<le> length ls \<and> (err = None \<longleftrightarrow> n = length ls)
    \<and> submitted (tl_world s') = submitted (tl_world s) @ rs
    \<and> map untimed rs = line_records (pipeline_env cfg ops now compile parse_time next) target
        (map (bounded_line lim) (take n ls))
    \<and> tl_pending s' = tl_pending s
    \<and> stored_offset (tl_state s') (identity_key info) = offset_after off ls n"
  by (rule pipe.read_single [OF assms])

theorem round_emits_lines_witness:
  "\<exists>n rs. n \<le> 2 \<and> (fst (example_round ''a\<newline>b\<newline>c'' []) = None \<longleftrightarrow> n = 2)
    \<and> submitted (tl_world (snd (example_round ''a\<newline>b\<newline>c'' []))) = rs
    \<and> map untimed rs = line_records example_env (example_target [])
        (map (bounded_line example_limits) (take n [''a'', ''b'']))
    \<and> stored_offset (tl_state (snd (example_round ''a\<newline>b\<newline>c'' []))) (identity_key (1, 2))
        = offset_after 0 [''a'', ''b''] n"
proof -
  have ls: "[''a'', ''b''] = round_lines example_limits 0 ''a\<newline>b\<newline>c''"
    by (simp add: round_lines_def complete_lines_def example_limits_def)
  let ?R = "example_round ''a\<newline>b\<newline>c'' []"
  have run: "read example_env example_limits (example_fs ''a\<newline>b\<newline>c'') (example_target [])
      example_tailer = (fst ?R, snd ?R)" by (simp add: example_round_def)
  have hyps: "0 \<le> start_offset (tl_state example_tailer) (1, 2) (example_target [])
        (int (length ''a\<newline>b\<newline>c''))"
      "0 = start_offset (tl_state example_tailer) (1, 2) (example_target [])
        (int (length ''a\<newline>b\<newline>c''))" "StartPattern (Multiline (example_target [])) = []"
    by (simp_all add: example_start)
  obtain n rs where "n \<le> length [''a'', ''b'']" "fst ?R = None \<longleftrightarrow> n = length [''a'', ''b'']"
    "submitted (tl_world (snd ?R)) = submitted (tl_world example_tailer) @ rs"
    "map untimed rs = line_records example_env (example_target [])
        (map (bounded_line example_limits) (take n [''a'', ''b'']))"
    "stored_offset (tl_state (snd ?R)) (identity_key (1, 2)) = offset_after 0 [''a'', ''b''] n"
    using round_emits_lines [where cfg = example_flow and ops = example_bucket and now = example_now
        and compile = example_compile and parse_time = example_parse and ?next = example_next,
        folded example_env_def, OF example_readable example_limits_ok hyps(1,3) run hyps(2) ls]
    by (elim exE conjE) (rule that)
  then show ?thesis by (intro exI [of _ n] exI [of _ rs]) (simp add: numeral_2_eq_2)
qed

text \<open>C24. The timed flush at the end of a round emits the due bodies in the order of the map,
  up to the first failure; exactly the entries of the bodies taken are removed, and the
  others keep their bodies.\<close>

theorem flush_emits_due_bodies:
  assumes "flushExpired (pipeline_env cfg ops now compile parse_time next) t s = (err, s')"
    and "map_ok (tl_pending s)" and "ds = filter (due t) (tl_pending s)"
  shows "\<exists>n rs. n \<le> length ds \<and> (err = None \<longleftrightarrow> n = length ds)
    \<and> tl_state s' = tl_state s
    \<and> submitted (tl_world s') = submitted (tl_world s) @ rs
    \<and> map Body rs = map (pd_body \<circ> snd) (filter kept_entry (take n ds))
    \<and> map entry_view (tl_pending s') =
        map entry_view (filter (\<lambda>kp. fst kp \<notin> fst ` set (take n ds)) (tl_pending s))"
  using pipe.flushExpired_result [OF assms(1,2)] unfolding assms(3) .

definition example_pending :: pending where
  "example_pending = \<lparr>pd_ref = 0, pd_body = ''x'', pd_size = 1, pd_lines = 1,
     pd_target = example_target ''A'', pd_timestamp = 5, pd_attributes = None, pd_updated = 0,
     pd_start = Some example_pattern\<rparr>"

theorem flush_emits_due_bodies_witness:
  "\<exists>n rs. n \<le> 1 \<and> submitted (tl_world (snd (flushExpired example_env (10 * second)
      (example_tailer\<lparr>tl_pending := [(''k'', example_pending)]\<rparr>)))) = rs
    \<and> map Body rs = map (pd_body \<circ> snd) (filter kept_entry (take n [(''k'', example_pending)]))"
proof -
  let ?s = "example_tailer\<lparr>tl_pending := [(''k'', example_pending)]\<rparr>"
  have run: "flushExpired example_env (10 * second) ?s =
      (fst (flushExpired example_env (10 * second) ?s), snd (flushExpired example_env (10 * second) ?s))" by simp
  have "map_ok (tl_pending ?s)" "[(''k'', example_pending)] = filter (due (10 * second)) (tl_pending ?s)"
    by (simp_all add: due_def flush_after_def example_pending_def example_target_def second_def)
  from flush_emits_due_bodies [where cfg = example_flow and ops = example_bucket and now = example_now
        and compile = example_compile and parse_time = example_parse and ?next = example_next,
        folded example_env_def, OF run this]
  obtain n rs where "n \<le> length [(''k'', example_pending)]"
    "submitted (tl_world (snd (flushExpired example_env (10 * second) ?s))) = submitted (tl_world ?s) @ rs"
    "map Body rs = map (pd_body \<circ> snd) (filter kept_entry (take n [(''k'', example_pending)]))"
    by (elim exE conjE) (rule that)
  then show ?thesis by (intro exI [of _ n] exI [of _ rs]) simp
qed

text \<open>C25. \<open>Close\<close> empties the buffers and emits the buffered bodies in order; the positions
  are saved only if every emission succeeds.  After a failure the state file is as it was and
  the bodies that were not taken are gone.\<close>

theorem close_emits_then_saves:
  assumes "Close (pipeline_env cfg ops now compile parse_time next) marshal io (s, d) = (err, s', d')"
    and "bs = filter (\<lambda>kp. pd_body (snd kp) \<noteq> []) (tl_pending s)"
  shows "\<exists>n rs. n \<le> length bs \<and> tl_pending s' = []
    \<and> submitted (tl_world s') = submitted (tl_world s) @ rs
    \<and> map Body rs = map (pd_body \<circ> snd) (filter kept_entry (take n bs))
    \<and> (if n = length bs
       then Save marshal io (tl_state s, d) = (err, tl_state s', d')
       else err \<noteq> None \<and> tl_state s' = tl_state s \<and> d' = d)"
  using pipe.Close_result [OF assms(1)] unfolding assms(2) .

theorem close_emits_then_saves_witness:
  "\<exists>n rs. n \<le> 1 \<and> tl_pending (fst (snd (Close example_env (\<lambda>ps. Inr ''{}'')
        \<lparr>io_mkdir = None, io_create = None, io_write = None, io_sync = None, io_close = None, io_rename = None\<rparr>
        (example_tailer\<lparr>tl_pending := [(''k'', example_pending)]\<rparr>, empty_disk)))) = []
    \<and> map Body (rs :: log_record list) = map (pd_body \<circ> snd) (filter kept_entry (take n [(''k'', example_pending)]))"
proof -
  let ?io = "\<lparr>io_mkdir = None, io_create = None, io_write = None, io_sync = None, io_close = None, io_rename = None\<rparr>"
  let ?C = "Close example_env (\<lambda>ps. Inr ''{}'') ?io
      (example_tailer\<lparr>tl_pending := [(''k'', example_pending)]\<rparr>, empty_disk)"
  have run: "?C = (fst ?C, fst (snd ?C), snd (snd ?C))" by simp
  have bs: "[(''k'', example_pending)] = filter (\<lambda>kp. pd_body (snd kp) \<noteq> [])
      (tl_pending (example_tailer\<lparr>tl_pending := [(''k'', example_pending)]\<rparr>))"
    by (simp add: example_pending_def)
  from close_emits_then_saves [where cfg = example_flow and ops = example_bucket and now = example_now
        and compile = example_compile and parse_time = example_parse and ?next = example_next,
        folded example_env_def, OF run bs]
  obtain n and rs :: "log_record list" where "n \<le> length [(''k'', example_pending)]"
    "tl_pending (fst (snd ?C)) = []" "map Body rs = map (pd_body \<circ> snd) (filter kept_entry (take n [(''k'', example_pending)]))"
    by (elim exE conjE) (rule that)
  then show ?thesis by (intro exI [of _ n] exI [of _ rs]) simp
qed


text \<open>C39. A file that is seen first while it is empty, with \<open>start_at\<close> = \<open>end\<close>, leaves no
  position behind, because the committed offset 0 equals the zero position of a missing entry.
  The next round therefore starts at the size the file has by then, and what was written in
  between is never read.\<close>

theorem empty_file_is_forgotten:
  assumes "readable fs target info 0 []" "small_limit lim" "StartAt target = ''end''"
    and "Get (tl_state s) (identity_key info) = None"
  shows "read (pipeline_env cfg ops now compile parse_time next) lim fs target s = (None, s)
    \<and> start_offset (tl_state s) info target fsize = fsize"
proof -
  have off: "start_offset (tl_state s) info target n = n" for n
    using assms(3,4) by (simp add: start_offset_def read_offset_def)
  have "round_lines lim (start_offset (tl_state s) info target 0) [] = []"
    by (simp add: round_lines_def complete_lines_def)
  with read_round [OF assms(1,2), of s "pipeline_env cfg ops now compile parse_time next"] off [of 0]
  have "read (pipeline_env cfg ops now compile parse_time next) lim fs target s =
      (None, commit_offset (pipeline_env cfg ops now compile parse_time next) (identity_key info) target
        (stored_offset (tl_state s) (identity_key info)) 0 s)"
    by (auto simp: offset_after_def)
  with assms(4) off show ?thesis by (simp add: stored_offset_def commit_offset_def)
qed

theorem empty_file_is_forgotten_witness:
  "read example_env example_limits (example_fs []) ((example_target [])\<lparr>StartAt := ''end''\<rparr>) example_tailer
      = (None, example_tailer)
   \<and> start_offset (tl_state example_tailer) (1, 2) ((example_target [])\<lparr>StartAt := ''end''\<rparr>) 7 = 7"
proof -
  have "readable (example_fs []) ((example_target [])\<lparr>StartAt := ''end''\<rparr>) (1, 2) 0 []"
    by (simp add: readable_def example_fs_def)
  from empty_file_is_forgotten [OF this example_limits_ok, of example_tailer example_flow example_bucket
      example_now example_compile example_parse example_next 7, folded example_env_def]
  show ?thesis by (simp add: Get_def example_store_def)
qed

text \<open>C38. The body of a merged file is committed before it is handed over.  A round that reads the
  first line of a body stores the offset after the line while the line is only in memory: nothing
  is handed over, and the next round, also one of a restarted program that has the stored position
  but not the buffer, starts after the line.  A crash before the body is flushed loses it.\<close>

theorem buffered_line_is_committed:
  assumes "readable fs target info fsize data" "small_limit lim"
    and "0 \<le> start_offset (tl_state s) info target fsize"
    and "StartPattern (Multiline target) \<noteq> []" "compile (StartPattern (Multiline target)) = Some re"
    and "map_of (tl_pending s) (identity_key info) = None"
    and "read (pipeline_env cfg ops now compile parse_time next) lim fs target s = (err, s')"
    and "off = start_offset (tl_state s) info target fsize" "round_lines lim off data = [l]"
  shows "err = None \<and> submitted (tl_world s') = submitted (tl_world s)
    \<and> buffered (identity_key info) (tl_pending s') = nonblank [merged_text
        (pipeline_env cfg ops now compile parse_time next) lim target (bounded_line lim l)]
    \<and> (off + int (length l) + 1 \<le> n \<longrightarrow> start_offset (tl_state s') info target n = off + int (length l) + 1)"
proof -
  have re: "env_compile (pipeline_env cfg ops now compile parse_time next) (StartPattern (Multiline target)) = Some re"
    using assms(5) by (simp add: pipeline_env_def)
  note r = pipe.read_first [OF assms(1-4) re assms(6-9)]
  have "start_offset (tl_state s') info target n = off + int (length l) + 1" if "off + int (length l) + 1 \<le> n"
    using r assms(3,8) that
    by (auto simp: stored_offset_def start_offset_def read_offset_def split: option.splits)
  with r show ?thesis by simp
qed

theorem buffered_line_is_committed_witness:
  "submitted (tl_world (snd (example_round ''A1\<newline>'' ''A''))) = []
   \<and> start_offset (tl_state (snd (example_round ''A1\<newline>'' ''A''))) (1, 2) (example_target ''A'') 9 = 3"
proof -
  have ls: "round_lines example_limits 0 ''A1\<newline>'' = [''A1'']"
    by (simp add: round_lines_def complete_lines_def example_limits_def)
  let ?R = "example_round ''A1\<newline>'' ''A''"
  have run: "read example_env example_limits (example_fs ''A1\<newline>'') (example_target ''A'')
      example_tailer = (fst ?R, snd ?R)" by (simp add: example_round_def)
  have hyps: "0 \<le> start_offset (tl_state example_tailer) (1, 2) (example_target ''A'') (int (length ''A1\<newline>''))"
      "StartPattern (Multiline (example_target ''A'')) \<noteq> []"
      "example_compile (StartPattern (Multiline (example_target ''A''))) = Some example_pattern"
      "map_of (tl_pending example_tailer) (identity_key (1, 2)) = None"
      "0 = start_offset (tl_state example_tailer) (1, 2) (example_target ''A'') (int (length ''A1\<newline>''))"
    by (simp_all add: example_start example_compile_def)
  from buffered_line_is_committed [where cfg = example_flow and ops = example_bucket and now = example_now
      and compile = example_compile and parse_time = example_parse and ?next = example_next and n = 9,
      folded example_env_def, OF example_readable example_limits_ok hyps(1-4) run hyps(5) ls]
  show ?thesis by simp
qed

end
