(* ===== verification/Safety.thy ===== *)
theory Safety
  imports Targets Pipeline
begin

text \<open>
  The validated configuration keeps the running collector from panicking: on the targets that
  discovery makes, no read, timed flush or close reaches a nil map or a nil regular
  expression, and every record that leaves the tailer carries a resource whose key is the
  one the exporter would compute.  The lemmas are about any downstream (\<open>sink\<close>).
\<close>

section \<open>What is kept\<close>

fun is_panic :: "gerr \<Rightarrow> bool" where
  "is_panic (Panic msg) = True"
| "is_panic (Wrap msg err) = is_panic err"
| "is_panic err = False"

definition no_panic :: "gerr option \<Rightarrow> bool" where
  "no_panic err = (case err of None \<Rightarrow> True | Some x \<Rightarrow> \<not> is_panic x)"

definition good_record :: "log_record \<Rightarrow> bool" where
  "good_record r = (case RecResourceAttributes r of None \<Rightarrow> False
     | Some ra \<Rightarrow> map_ok ra \<and> RecResourceKey r = attributeKey (Some ra))"

definition safe_entry :: "pending \<Rightarrow> bool" where
  "safe_entry p \<longleftrightarrow> pd_start p \<noteq> None \<and> prepared_target (pd_target p)"

definition safe_buffers :: "(string \<times> pending) list \<Rightarrow> bool" where
  "safe_buffers kps = list_all (\<lambda>kp. safe_entry (snd kp)) kps"

definition calm_files :: "(string \<Rightarrow> gerr + file_view) \<Rightarrow> bool" where
  "calm_files fs \<longleftrightarrow> (\<forall>path. case fs path of Inl x \<Rightarrow> \<not> is_panic x
     | Inr f \<Rightarrow> (case fv_stat f of Inl x \<Rightarrow> \<not> is_panic x | Inr i \<Rightarrow> True))"

definition quiet :: "'w env \<Rightarrow> bool" where
  "quiet e \<longleftrightarrow> (\<forall>r w. no_panic (fst (env_emit e r w)))"

lemma calm_filesD:
  assumes "calm_files fs"
  shows "fs path = Inl x \<Longrightarrow> \<not> is_panic x" "fs path = Inr f \<Longrightarrow> fv_stat f = Inl x \<Longrightarrow> \<not> is_panic x"
  using assms unfolding calm_files_def by (metis old.sum.simps(5), metis old.sum.simps(5,6))

lemma good_record_untimed: "untimed r = untimed r' \<Longrightarrow> good_record r = good_record r'"
proof -
  have "good_record r = good_record (untimed r)" for r
    by (simp add: untimed_def good_record_def split: option.split)
  then show "untimed r = untimed r' \<Longrightarrow> ?thesis" by metis
qed

lemma preparedRecord_good:
  assumes "prepared_target t"
  shows "\<exists>r. preparedRecord t body ts attrs = Inr r \<and> good_record r"
  using assms
  by (cases rule: preparedRecord_cases [of t body ts attrs])
     (auto simp: good_record_def prepared_target_def split: option.splits)

lemma prepared_pending_good:
  assumes "safe_entry p"
  shows "\<exists>r q. prepared_pending p = Inr (r, q) \<and> good_record r \<and> safe_entry q"
proof -
  obtain r where "preparedRecord (pd_target p) (pd_body p) (pd_timestamp p) (pd_attributes p) = Inr r"
    "good_record r" using preparedRecord_good assms unfolding safe_entry_def by blast
  with assms show ?thesis by (simp add: prepared_pending_def safe_entry_def)
qed

lemma safe_buffers_set [simp]:
  "safe_buffers kps \<Longrightarrow> safe_entry p \<Longrightarrow> safe_buffers (map_set k p kps)"
  unfolding safe_buffers_def map_set_def by (induction kps) auto

lemma safe_buffersD: "safe_buffers kps \<Longrightarrow> map_of kps k = Some p \<Longrightarrow> safe_entry p"
  unfolding safe_buffers_def list_all_iff by (metis map_of_SomeD snd_conv)

lemma safe_buffers_drop: "safe_buffers kps \<Longrightarrow> safe_buffers (drop_entry x kps)"
  by (auto simp: safe_buffers_def drop_entry_def list_all_iff AList.delete_eq)

section \<open>The operations of the tailer\<close>

text \<open>An operation that does no harm: no panic, only good records, and the buffers stay safe.\<close>

definition harmless :: "('w \<Rightarrow> log_record list) \<Rightarrow> gerr option \<Rightarrow> 'w tailer \<Rightarrow> 'w tailer \<Rightarrow> bool" where
  "harmless accepted err s s' \<longleftrightarrow> no_panic err \<and> (safe_buffers (tl_pending s) \<longrightarrow> safe_buffers (tl_pending s'))
     \<and> (\<exists>rs. accepted (tl_world s') = accepted (tl_world s) @ rs \<and> list_all good_record rs)"

lemma harmless_trans:
  "harmless accepted err1 s s1 \<Longrightarrow> harmless accepted err s1 s2 \<Longrightarrow> harmless accepted err s s2"
  unfolding harmless_def by (elim conjE exE, intro conjI impI exI) (assumption | simp)+

lemma harmless_refl: "no_panic err \<Longrightarrow> harmless accepted err s s"
  by (simp add: harmless_def)

lemma no_panic_None [simp]: "no_panic None" by (simp add: no_panic_def)

text \<open>What the encoding and the file operations of a save return is an error, not a panic.\<close>

definition calm_save :: "(positions \<Rightarrow> gerr + string) \<Rightarrow> io_calls \<Rightarrow> bool" where
  "calm_save marshal io \<longleftrightarrow> (\<forall>ps. case marshal ps of Inl x \<Rightarrow> \<not> is_panic x | Inr b \<Rightarrow> True)
     \<and> no_panic (io_mkdir io) \<and> no_panic (io_create io) \<and> no_panic (map_option fst (io_write io))
     \<and> no_panic (io_sync io) \<and> no_panic (io_close io) \<and> no_panic (io_rename io)"

lemma save_ops_calm:
  assumes "calm_save marshal io"
  shows "no_panic (fst (save_ops io b))"
proof -
  have "no_panic (fst (write_temp io b))"
    using assms by (auto simp: calm_save_def write_temp_def no_panic_def split: option.split)
  with assms show ?thesis
    by (auto simp: calm_save_def save_ops_def Let_def no_panic_def split: option.splits prod.splits)
qed

lemma save_calm:
  assumes "calm_save marshal io" "save marshal io force sd = (err, sd')"
  shows "no_panic err"
proof (cases "save_begin marshal force (fst sd)")
  case None
  with assms(2) show ?thesis by (simp add: save_def no_panic_def)
next
  case (Some begun)
  show ?thesis
  proof (cases begun)
    case (Inl x)
    with Some have "marshal (st_positions (fst sd)) = Inl x"
      by (auto simp: save_begin_def split: if_splits sum.splits)
    with assms(1) have "\<not> is_panic x" unfolding calm_save_def by (metis old.sum.simps(5))
    with assms(2) Some Inl show ?thesis by (auto simp: save_def no_panic_def)
  next
    case (Inr bg)
    obtain b gen where bg: "bg = (b, gen)" by (cases bg)
    obtain err1 ops where o: "save_ops io b = (err1, ops)" by fastforce
    with assms(2) Some Inr bg have "err = err1"
      by (cases err1) (simp_all add: save_def save_files_def)
    with save_ops_calm [OF assms(1), of b] o show ?thesis by simp
  qed
qed

context sink
begin

lemma emitPrepared_good:
  assumes "quiet e" "good_record r" "emitPrepared e r w = (err, w')"
  shows "no_panic err" "\<exists>rs. accepted w' = accepted w @ rs \<and> list_all good_record rs"
proof -
  have "no_panic (fst (emitPrepared e r w))"
    using assms(1) by (simp add: quiet_def emitPrepared_def Let_def split: prod.split)
  with assms(3) show "no_panic err" by simp
  obtain rs where rs: "accepted w' = accepted w @ rs"
    "map untimed rs = (if err = None \<and> \<not> Dropped r then [untimed r] else [])"
    using emitPrepared_result [OF assms(3)] by blast
  then have "list_all good_record rs"
    using assms(2) by (cases rs) (auto dest: good_record_untimed split: if_splits)
  with rs(1) show "\<exists>rs. accepted w' = accepted w @ rs \<and> list_all good_record rs" by blast
qed

lemma put_line_harmless:
  assumes "put_line e key line ts attrs p s = (err, s')" "safe_entry p"
  shows "harmless accepted err s s'"
proof -
  have "safe_entry (append_line line ts attrs now p)" for now
    using assms(2) by (simp add: safe_entry_def)
  with put_line_result [OF assms(1)] show ?thesis by (auto simp: harmless_def)
qed

lemma flush_body_harmless:
  assumes "quiet e" "flush_body e key p s = (err, q, s')" "safe_entry p"
  shows "harmless accepted err s s'" "safe_entry q"
proof -
  obtain r p' where r: "prepared_pending p = Inr (r, p')" "good_record r" "safe_entry p'"
    using prepared_pending_good [OF assms(3)] by blast
  obtain err1 w where w: "emitPrepared e r (tl_world s) = (err1, w)" by fastforce
  note em = emitPrepared_good [OF assms(1) r(2) w]
  have "err = err1 \<and> tl_world s' = w \<and> tl_pending s' \<in> {tl_pending s, map_set key p' (tl_pending s)}
      \<and> q \<in> {p', p'\<lparr>pd_body := [], pd_size := 0, pd_lines := 0\<rparr>}"
    using assms(2) r(1) w by (auto simp: flush_body_def split: option.splits)
  moreover have "safe_entry (p'\<lparr>pd_body := [], pd_size := 0, pd_lines := 0\<rparr>)"
    using r(3) by (simp add: safe_entry_def)
  ultimately show "harmless accepted err s s'" "safe_entry q"
    using em r(3) by (auto simp: harmless_def)
qed

lemma emitRecord_harmless:
  assumes "quiet e" "prepared_target t" "emitRecord e t line ts attrs (tl_world s) = (err, w)"
  shows "harmless accepted err s (s\<lparr>tl_world := w\<rparr>)"
proof -
  obtain r where r: "preparedRecord t line ts attrs = Inr r" "good_record r"
    using preparedRecord_good [OF assms(2)] by blast
  with assms(3) have "emitPrepared e r (tl_world s) = (err, w)" by (simp add: emitRecord_def)
  from emitPrepared_good [OF assms(1) r(2) this] show ?thesis by (simp add: harmless_def)
qed

lemma accept_harmless:
  assumes "quiet e" "prepared_target t" "readable_target (env_compile e) t" "safe_buffers (tl_pending s)"
    and acc: "accept e lim key t line s = (err, s')"
  shows "harmless accepted err s s'"
proof (cases "StartPattern (Multiline t) = []")
  case True
  obtain tx ts attrs where cri: "cri_line e t line = (tx, ts, attrs)" using prod_cases3 by blast
  obtain err1 w where w: "emitRecord e t tx ts attrs (tl_world s) = (err1, w)" by fastforce
  from acc True cri w have "err = err1" "s' = s\<lparr>tl_world := w\<rparr>" by (simp_all add: accept_def)
  with emitRecord_harmless [OF assms(1,2) w] show ?thesis by simp
next
  case sp: False
  obtain p s1 where p: "obtain_pending e key t s = (p, s1)" by fastforce
  note ob = obtain_pending_result [OF p]
  have start: "env_compile e (StartPattern (Multiline t)) \<noteq> None"
    using assms(3) sp by (simp add: readable_target_def compiles_def)
  have safe: "safe_entry p"
    using ob(4) assms(2,4) start
    by (auto simp: safe_entry_def [of p] split: option.splits dest: safe_buffersD)
  have pend: "tl_pending s1 \<in> {tl_pending s, map_set key p (tl_pending s)}"
    using p by (auto simp: obtain_pending_def Let_def split: option.splits prod.splits)
  have h1: "harmless accepted None s s1"
    using ob(1) pend safe by (auto simp: harmless_def)
  show ?thesis
  proof (cases rule: accept_entry [OF acc sp p refl, case_names panic append reject flush])
    case panic
    with safe show ?thesis by (simp add: safe_entry_def)
  next
    case (append ts attrs start)
    with put_line_harmless safe h1 show ?thesis by (blast intro: harmless_trans)
  next
    case (reject q)
    with flush_body_harmless [OF assms(1) _ safe] h1 show ?thesis by (blast intro: harmless_trans)
  next
    case (flush ts attrs q s2)
    note f = flush_body_harmless [OF assms(1) flush(2) safe]
    from harmless_trans [OF h1 harmless_trans [OF f(1) put_line_harmless [OF flush(3) f(2)]]]
    show ?thesis .
  qed
qed

lemma read_loop_harmless:
  assumes "quiet e" "prepared_target t" "readable_target (env_compile e) t" "safe_buffers (tl_pending s)"
    and "read_loop e lim key t off got com r s = (err, c, s')"
  shows "harmless accepted err s s'"
  using assms(4,5)
proof (induction "length (rd_data r)" arbitrary: off got com r s rule: less_induct)
  case less
  obtain line n complete rerr r' where rb: "readBoundedLine r (lim_log lim) = ((line, n, complete, rerr), r')"
    by (metis prod_cases4 surj_pair)
  obtain aerr s1 where a: "accept e lim key t line s = (aerr, s1)" by fastforce
  note h = accept_harmless [OF assms(1-3) less(2) a]
  have step: "read_loop e lim key t off got com r s =
     (if got < lim_read lim \<and> \<not> (n = 0 \<and> rerr \<noteq> None) \<and> complete then
        (case aerr of Some x \<Rightarrow> (Some x, com, s1)
         | None \<Rightarrow> if rerr \<noteq> None then (None, off + int n, s1)
             else read_loop e lim key t (off + int n) (got + int n) (off + int n) r' s1)
      else (None, com, s))"
    by (subst read_loop.simps) (simp add: rb a)
  show ?case
  proof (cases "got < lim_read lim \<and> \<not> (n = 0 \<and> rerr \<noteq> None) \<and> complete")
    case False
    with less(3) step show ?thesis by (auto simp: harmless_refl)
  next
    case True
    show ?thesis
    proof (cases "aerr = None \<and> rerr = None")
      case False
      with True less(3) step h show ?thesis by (auto split: option.splits)
    next
      case go: True
      have "length (rd_data r') < length (rd_data r)"
        using readBoundedLine_consumes [OF rb] True by linarith
      moreover have "safe_buffers (tl_pending s1)" using h less(2) by (simp add: harmless_def)
      moreover have "read_loop e lim key t (off + int n) (got + int n) (off + int n) r' s1 = (err, c, s')"
        using True go less(3) step by simp
      ultimately have "harmless accepted err s1 s'" by (rule less(1))
      with h show ?thesis by (rule harmless_trans)
    qed
  qed
qed

lemma read_harmless:
  assumes "quiet e" "prepared_target t" "readable_target (env_compile e) t" "safe_buffers (tl_pending s)"
    and io: "calm_files fs"
    and "read e lim fs t s = (err, s')"
  shows "harmless accepted err s s'"
proof -
  have commit: "harmless accepted err s (commit_offset e key t i c s1)"
    if "harmless accepted err s s1" for key i c s1
    using that commit_offset_accepted [of key t i c s1]
    by (simp add: harmless_def commit_offset_fields)
  show ?thesis
    using assms(6) calm_filesD [OF io] read_loop_harmless [OF assms(1-4)] commit
    by (auto simp: read_def identity_def Let_def no_panic_def intro!: harmless_refl
        split: sum.splits prod.splits option.splits if_splits)
qed

lemma flush_select_good:
  assumes "safe_buffers kps" "flush_select now kps = (err, xs, kps')"
  shows "err = None \<and> list_all (\<lambda>x. good_record (xp_record x)) xs \<and> safe_buffers kps'"
  using assms
proof (induction kps arbitrary: err xs kps')
  case (Cons kp kps)
  obtain k p where kp: "kp = (k, p)" by (cases kp)
  with Cons.prems(1) have p: "safe_entry p" "safe_buffers kps" by (simp_all add: safe_buffers_def)
  obtain r q where q: "prepared_pending p = Inr (r, q)" "good_record r" "safe_entry q"
    using prepared_pending_good [OF p(1)] by blast
  obtain err1 ys kps1 where rec: "flush_select now kps = (err1, ys, kps1)" using prod_cases3 by blast
  from Cons.IH [OF p(2) rec] Cons.prems(2) kp p(1) q rec show ?case
    by (auto simp: safe_buffers_def split: if_splits)
qed simp

lemma flush_emit_harmless:
  assumes "quiet e" "list_all (\<lambda>x. good_record (xp_record x)) xs" "flush_emit e xs s = (err, s')"
  shows "harmless accepted err s s'"
  using assms(2,3)
proof (induction xs arbitrary: s)
  case (Cons x xs)
  obtain err1 w where w: "emitPrepared e (xp_record x) (tl_world s) = (err1, w)" by fastforce
  note em = emitPrepared_good [OF assms(1) _ w]
  let ?s = "s\<lparr>tl_pending := drop_entry x (tl_pending s), tl_world := w\<rparr>"
  show ?case
  proof (cases err1)
    case (Some y)
    with Cons.prems em w show ?thesis by (auto simp: harmless_def)
  next
    case None
    have "harmless accepted None s ?s"
      using em Cons.prems(1) by (auto simp: harmless_def safe_buffers_drop)
    moreover have "harmless accepted err ?s s'"
      using Cons.prems w None by (intro Cons.IH) simp_all
    ultimately show ?thesis by (rule harmless_trans)
  qed
qed (simp add: harmless_refl)

lemma flushExpired_harmless:
  assumes "quiet e" "safe_buffers (tl_pending s)" "flushExpired e now s = (err, s')"
  shows "harmless accepted err s s'"
proof -
  obtain err1 xs kps where sel: "flush_select now (tl_pending s) = (err1, xs, kps)" using prod_cases3 by blast
  note g = flush_select_good [OF assms(2) sel]
  have "flush_emit e xs (s\<lparr>tl_pending := kps\<rparr>) = (err, s')"
    using assms(3) sel g by (simp add: flushExpired_def)
  from flush_emit_harmless [OF assms(1) _ this] g show ?thesis by (auto simp: harmless_def)
qed

lemma close_select_good:
  "safe_buffers kps \<Longrightarrow> \<exists>rs. close_select kps = Inr rs \<and> list_all good_record rs"
proof (induction kps)
  case (Cons kp kps)
  obtain k p where kp: "kp = (k, p)" by (cases kp)
  with Cons.prems have p: "safe_entry p" "safe_buffers kps" by (simp_all add: safe_buffers_def)
  obtain r q where "prepared_pending p = Inr (r, q)" "good_record r"
    using prepared_pending_good [OF p(1)] by blast
  with Cons.IH [OF p(2)] kp show ?case by auto
qed simp

lemma emit_all_good:
  assumes "quiet e" "list_all good_record rs" "emit_all e rs w = (err, w')"
  shows "no_panic err \<and> (\<exists>out. accepted w' = accepted w @ out \<and> list_all good_record out)"
  using assms(2,3)
proof (induction rs arbitrary: w)
  case (Cons r rs)
  obtain err1 w1 where w1: "emitPrepared e r w = (err1, w1)" by fastforce
  note em = emitPrepared_good [OF assms(1) _ w1]
  show ?case
  proof (cases err1)
    case (Some y)
    with Cons.prems em w1 show ?thesis by auto
  next
    case None
    then have "emit_all e rs w1 = (err, w')" using Cons.prems(2) w1 by simp
    from Cons.IH [OF _ this] Cons.prems(1) em show ?thesis by fastforce
  qed
qed simp

text \<open>The close: the last bodies are prepared and emitted, then the positions are saved.\<close>

lemma Close_harmless:
  assumes "quiet e" "safe_buffers (tl_pending s)" "calm_save marshal io"
    and "Close e marshal io (s, d) = (err, s', d')"
  shows "harmless accepted err s s'"
proof -
  obtain rs where rs: "close_select (tl_pending s) = Inr rs" "list_all good_record rs"
    using close_select_good [OF assms(2)] by blast
  obtain err1 w where em: "emit_all e rs (tl_world s) = (err1, w)" by fastforce
  note g = emit_all_good [OF assms(1) rs(2) em]
  show ?thesis
  proof (cases err1)
    case (Some x)
    with assms(4) rs(1) em have "err = err1" "s' = s\<lparr>tl_pending := [], tl_world := w\<rparr>"
      by (simp_all add: Close_def)
    with g show ?thesis by (simp add: harmless_def safe_buffers_def)
  next
    case None
    obtain err2 st d2 where sv: "Save marshal io (tl_state s, d) = (err2, st, d2)" by (metis prod_cases3)
    with None assms(4) rs(1) em have "err = err2" "s' = s\<lparr>tl_pending := [], tl_world := w, tl_state := st\<rparr>"
      by (simp_all add: Close_def)
    with g save_calm [OF assms(3) sv [unfolded Save_def]] show ?thesis by (simp add: harmless_def safe_buffers_def)
  qed
qed

lemma read_all_harmless:
  assumes "quiet e" "safe_buffers (tl_pending s)"
    and "list_all (\<lambda>t. prepared_target t \<and> readable_target (env_compile e) t) ts"
    and io: "calm_files fs"
  shows "harmless accepted None s (read_all e lim fs ts s)"
  using assms(2,3)
proof (induction ts arbitrary: s)
  case (Cons t ts)
  have "harmless accepted (fst (read e lim fs t s)) s (snd (read e lim fs t s))"
    using Cons.prems by (intro read_harmless [OF assms(1) _ _ _ io]) simp_all
  then have h: "harmless accepted None s (snd (read e lim fs t s))" by (simp add: harmless_def)
  moreover have "harmless accepted None (snd (read e lim fs t s)) (read_all e lim fs ts (snd (read e lim fs t s)))"
    using h Cons.prems by (intro Cons.IH) (simp_all add: harmless_def)
  ultimately have "harmless accepted None s (read_all e lim fs ts (snd (read e lim fs t s)))"
    by (rule harmless_trans)
  then show ?case by simp
qed (simp add: harmless_refl)

lemma Poll_harmless:
  assumes "quiet e" "safe_buffers (tl_pending s)"
    and "list_all (\<lambda>t. prepared_target t \<and> readable_target (env_compile e) t) ts"
    and io: "calm_files fs"
    and poll: "Poll e lim fs cancelled ts s = (err, s')"
  shows "harmless accepted err s s'"
proof -
  note ra = read_all_harmless [OF assms(1,2) _ io]
  have finish: "harmless accepted err s s'"
    if "(let s = read_all e lim fs ts s; (now, w) = env_now e (tl_world s)
         in flushExpired e now (s\<lparr>tl_world := w\<rparr>)) = (err, s')"
  proof -
    let ?r = "read_all e lim fs ts s"
    obtain now w where w: "env_now e (tl_world ?r) = (now, w)" by fastforce
    have "harmless accepted None ?r (?r\<lparr>tl_world := w\<rparr>)"
      using clock_accepts [OF w] by (simp add: harmless_def)
    with ra [OF assms(3)] have h: "harmless accepted None s (?r\<lparr>tl_world := w\<rparr>)"
      by (rule harmless_trans)
    have "flushExpired e now (?r\<lparr>tl_world := w\<rparr>) = (err, s')" using that w by (simp add: Let_def)
    from flushExpired_harmless [OF assms(1) _ this] h assms(2) show ?thesis
      by (intro harmless_trans [OF h]) (simp_all add: harmless_def)
  qed
  show ?thesis
  proof (cases "\<exists>n. cancelled = Some n \<and> n < length ts")
    case True
    then obtain n where n: "cancelled = Some n" "n < length ts" by blast
    have "list_all (\<lambda>t. prepared_target t \<and> readable_target (env_compile e) t) (take n ts)"
      using assms(3) by (auto simp: list_all_iff dest: in_set_takeD)
    from ra [OF this, of lim] n poll show ?thesis
      by (auto simp: Poll_def harmless_def no_panic_def)
  next
    case False
    with poll show ?thesis by (intro finish) (auto simp: Poll_def split: option.splits)
  qed
qed

end

lemma good_record_keyed: "good_record r \<Longrightarrow> no_nul (RecResourceAttributes r) \<Longrightarrow> keyed r"
  by (auto simp: good_record_def keyed_def split: option.splits)

lemma quiet_pipeline:
  assumes "\<forall>b. no_panic (fst (bo_wait ops b))" "\<forall>r x. no_panic (fst (next r x))"
  shows "quiet (pipeline_env cfg ops now compile parse_time next)"
proof -
  have w: "bo_wait ops b = (err, b') \<Longrightarrow> no_panic err" and n: "next r x = (err, x') \<Longrightarrow> no_panic err"
    for b b' err r x x' using assms by (metis fst_conv)+
  then show ?thesis
    by (auto simp: quiet_def pipeline_env_def Submit_def forward_def Let_def
        split: prod.split option.split bool.split)
qed

section \<open>Property\<close>

text \<open>C4. With a valid configuration the tailer never reaches a run-time panic.  On the targets of
  any round of discovery every read, whatever the file holds, the whole round with its timed flush,
  and the close with its last emissions and its save end without one; and every record handed over
  carries a resource and the very key the exporter would compute from it, so that grouping by key
  is grouping by resource.  The files, the limiter, the encoding and the file operations return
  errors, not panics, and the store was loaded with a map: a state file with the JSON text \<open>null\<close>
  leaves it nil, and the first write to it panics (\<open>null_state_panics\<close>).\<close>

theorem validated_never_panics:
  assumes "good_config compile uc cfg" "discovery_ok compile uc (cf_Sources cfg) d"
    and "Discover glob regular processes t0 d = ((ts, derr), d')"
    and "\<forall>b. no_panic (fst (bo_wait ops b))" "safe_buffers (tl_pending s)"
    and "calm_files fs" "calm_save marshal io"
    and "env = pipeline_env (cf_FlowControl cfg) ops now compile parse_time (submit (cf_Export cfg) sd hook active)"
  shows "(\<forall>t \<in> set ts. harmless submitted (fst (read env lim fs t s)) s (snd (read env lim fs t s)))
    \<and> harmless submitted (fst (Poll env lim fs cancelled ts s)) s (snd (Poll env lim fs cancelled ts s))
    \<and> harmless submitted (fst (Close env marshal io (s, d0))) s (fst (snd (Close env marshal io (s, d0))))"
proof -
  have q: "quiet env"
    unfolding assms(8) by (rule quiet_pipeline [OF assms(4)]) (simp add: submit_nil)
  have comp: "env_compile env = compile" by (simp add: assms(8) pipeline_env_def)
  obtain seen where "dedup_loop t0 (candidates glob regular (snd processes) d) [] (ds_seen d) = (ts, seen)"
    using Discover_result [OF assms(3)] by blast
  note sp = dedup_loop_spec [OF this]
  have ts: "list_all (\<lambda>t. prepared_target t \<and> readable_target (env_compile env) t) ts"
    unfolding list_all_iff comp
  proof
    fix t assume "t \<in> set ts"
    then obtain q where "q \<in> set (candidates glob regular (snd processes) d)" "t = prepareResource q"
      using sp by blast
    then show "prepared_target t \<and> readable_target compile t"
      using candidates_readable [OF assms(2)] by simp
  qed
  have "harmless submitted (fst (read env lim fs t s)) s (snd (read env lim fs t s))" if "t \<in> set ts" for t
    using ts that q assms(5) unfolding assms(8) list_all_iff
    by (intro pipe.read_harmless [OF _ _ _ _ assms(6) prod.collapse [symmetric]]) blast+
  moreover have "harmless submitted (fst (Poll env lim fs cancelled ts s)) s (snd (Poll env lim fs cancelled ts s))"
    unfolding assms(8)
    by (rule pipe.Poll_harmless [OF q [unfolded assms(8)] assms(5) ts [unfolded assms(8)] assms(6) prod.collapse [symmetric]])
  moreover have "harmless submitted (fst (Close env marshal io (s, d0))) s (fst (snd (Close env marshal io (s, d0))))"
  proof -
    obtain cerr cs cd where cl: "Close env marshal io (s, d0) = (cerr, cs, cd)" by (metis prod_cases3)
    from pipe.Close_harmless [OF q [unfolded assms(8)] assms(5,7) cl [unfolded assms(8)]] cl assms(8)
    show ?thesis by simp
  qed
  ultimately show ?thesis by blast
qed

definition example_outputs :: "(unit, unit) outputs" where
  "example_outputs = \<lparr>ou_hook = (), ou_queue = ([], new_exporter ())\<rparr>"

definition example_collector :: "((unit, (unit, unit) outputs) flow) tailer" where
  "example_collector = \<lparr>tl_state = example_store, tl_pending = [], tl_next = 0,
     tl_world = new_limiter () 0 example_outputs\<rparr>"

definition example_targets :: "file_target list" where
  "example_targets = fst (fst (Discover example_glob (\<lambda>p. True) (None, []) 5 example_discovery))"

definition collector_env :: "((unit, (unit, unit) outputs) flow) env" where
  "collector_env = pipeline_env (cf_FlowControl example_sources) example_bucket (\<lambda>x. (0, x)) (\<lambda>p. None)
     example_parse (submit (cf_Export example_sources) (\<lambda>b n. (None, n)) None True)"

lemma example_discovery_ok: "discovery_ok (\<lambda>p. None) id (cf_Sources example_sources) example_discovery"
proof -
  obtain d where "New_discovery (\<lambda>p. None) id (cf_Sources example_sources) 10 = Inr d"
    "discovery_ok (\<lambda>p. None) id (cf_Sources example_sources) d"
    using New_discovery_good [of "\<lambda>p. None" id "cf_Sources example_sources" 10] example_good
    by (auto simp: good_config_def)
  then show ?thesis by (simp add: example_new)
qed

theorem validated_never_panics_witness:
  "harmless submitted
     (fst (Poll collector_env example_limits (example_fs ''a\<newline>b\<newline>'') None example_targets example_collector))
     example_collector
     (snd (Poll collector_env example_limits (example_fs ''a\<newline>b\<newline>'') None example_targets example_collector))"
proof -
  have run: "Discover example_glob (\<lambda>p. True) (None, []) 5 example_discovery =
      ((example_targets, snd (fst (Discover example_glob (\<lambda>p. True) (None, []) 5 example_discovery))),
       snd (Discover example_glob (\<lambda>p. True) (None, []) 5 example_discovery))"
    by (simp add: example_targets_def)
  have bucket: "\<forall>b. no_panic (fst (bo_wait example_bucket b))" by (simp add: example_bucket_def)
  have safe: "safe_buffers (tl_pending example_collector)"
    by (simp add: example_collector_def safe_buffers_def)
  have files: "calm_files (example_fs ''a\<newline>b\<newline>'')" by (simp add: calm_files_def example_fs_def)
  have save: "calm_save one_marshal good_io"
    by (simp add: calm_save_def one_marshal_def good_io_def)
  show ?thesis
    using validated_never_panics [OF example_good example_discovery_ok run bucket safe files save collector_env_def,
        of example_limits None] by (rule conjunct1 [OF conjunct2])
qed

end
