(* ===== verification/Webhook.thy ===== *)
theory Webhook
  imports Config Model StateStore
begin

text \<open>
  The WeChat webhook of \<open>internal/webhook/wechat.go\<close>: which records it pushes, the text of
  the message and the bound on its length, and one push.  The network, the clock, the time
  format and the JSON coding are parameters (\<open>hook_ops\<close>); the response body is what
  \<open>ReadAll\<close> gets through the limited reader.  Log lines of the program itself are not
  modelled.
\<close>

section \<open>The message text\<close>

definition utf8 :: "nat list \<Rightarrow> string" where
  "utf8 bs = map char_of bs"

definition warningOpen :: string where "warningOpen = ''<font color=\"warning\">''"
definition warningClose :: string where "warningClose = ''</font>''"

text \<open>The labels of the source, in UTF-8: environment, host, time, level, error type, source,
  request id, file, and the heading of the body.\<close>

definition label_environment :: string where "label_environment = utf8 [231, 142, 175, 229, 162, 131]"
definition label_host :: string where "label_host = utf8 [228, 184, 187, 230, 156, 186]"
definition label_time :: string where "label_time = utf8 [230, 151, 182, 233, 151, 180]"
definition label_level :: string where
  "label_level = utf8 [230, 151, 165, 229, 191, 151, 231, 186, 167, 229, 136, 171]"
definition label_error_type :: string where
  "label_error_type = utf8 [233, 148, 153, 232, 175, 175, 231, 177, 187, 229, 158, 139]"
definition label_source :: string where
  "label_source = utf8 [230, 151, 165, 229, 191, 151, 230, 157, 165, 230, 186, 144]"
definition label_request :: string where
  "label_request = utf8 [232, 175, 183, 230, 177, 130] @ '' ID''"
definition label_file :: string where
  "label_file = utf8 [230, 151, 165, 229, 191, 151, 230, 150, 135, 228, 187, 182]"
definition body_heading :: string where
  "body_heading = ''**'' @ utf8 [230, 151, 165, 229, 191, 151, 229, 134, 133, 229, 174, 185] @ ''**''"
definition title_prefix :: string where
  "title_prefix = ''### '' @ utf8 [240, 159, 154, 168] @ '' ''"
definition label_end :: string where "label_end = utf8 [239, 188, 154] @ ''** ''"

text \<open>The replacer of four single bytes works byte by byte.\<close>

abbreviation backslash :: char where "backslash \<equiv> CHR 0x5C"

definition delimiter :: "char \<Rightarrow> bool" where
  "delimiter c \<longleftrightarrow> c \<in> {CHR 0x60, CHR ''<'', CHR ''>''}"

fun escape :: "string \<Rightarrow> string" where
  "escape [] = []"
| "escape (c # cs) = (if c = backslash \<or> delimiter c then [backslash, c] else [c]) @ escape cs"

fun firstNonEmpty :: "string list \<Rightarrow> string" where
  "firstNonEmpty [] = []"
| "firstNonEmpty (v # vs) = (if v \<noteq> [] then v else firstNonEmpty vs)"

definition truncated_suffix :: string where
  "truncated_suffix = ''...[truncated]''"

definition truncate_text :: "string \<Rightarrow> nat \<Rightarrow> string" where
  "truncate_text value limit =
     (let rs = runes value; n = rune_len truncated_suffix in
      if length rs \<le> limit then value
      else if limit \<le> n then of_runes (take limit rs)
      else of_runes (take (limit - n) rs) @ truncated_suffix)"

section \<open>The writer\<close>

record markdown_writer =
  mw_content :: string
  mw_remaining :: int

definition newMarkdownWriter :: "int \<Rightarrow> markdown_writer" where
  "newMarkdownWriter limit = \<lparr>mw_content = [], mw_remaining = limit\<rparr>"

definition separator :: "markdown_writer \<Rightarrow> string" where
  "separator w = (if mw_content w \<noteq> [] then [newline] else [])"

definition write_line :: "string \<Rightarrow> string \<Rightarrow> string \<Rightarrow> markdown_writer \<Rightarrow> bool \<times> markdown_writer" where
  "write_line prefix value suffix w =
     (let fixed = int (rune_len (separator w) + rune_len prefix + rune_len suffix) in
      if mw_remaining w < fixed then (False, w)
      else
        let rendered = truncate_text value (nat (mw_remaining w - fixed))
        in (True, \<lparr>mw_content = mw_content w @ separator w @ prefix @ rendered @ suffix,
                   mw_remaining = mw_remaining w - (fixed + int (rune_len rendered))\<rparr>))"

record alert_field =
  af_label :: string
  af_value :: string
  af_highlighted :: bool

definition field_prefix :: "alert_field \<Rightarrow> string" where
  "field_prefix f = ''> **'' @ af_label f @ label_end @ (if af_highlighted f then warningOpen else [])"

definition field_suffix :: "alert_field \<Rightarrow> string" where
  "field_suffix f = (if af_highlighted f then warningClose else [])"

definition write_field :: "alert_field \<Rightarrow> markdown_writer \<Rightarrow> markdown_writer" where
  "write_field f w =
     (if af_value f = [] then w
      else snd (write_line (field_prefix f) (escape (af_value f)) (field_suffix f) w))"

definition blankLine :: "markdown_writer \<Rightarrow> markdown_writer" where
  "blankLine w =
     (if 0 < mw_remaining w \<and> mw_content w \<noteq> []
      then \<lparr>mw_content = mw_content w @ [newline], mw_remaining = mw_remaining w - 1\<rparr> else w)"

record markdown_alert =
  ma_title :: string
  ma_fields :: "alert_field list"
  ma_body :: string

fun write_body :: "string list \<Rightarrow> markdown_writer \<Rightarrow> markdown_writer" where
  "write_body [] w = w"
| "write_body (l # ls) w =
     (case write_line (''> '' @ warningOpen) (escape l) warningClose w of
        (True, w) \<Rightarrow> write_body ls w
      | (False, w) \<Rightarrow> w)"

definition render :: "int \<Rightarrow> markdown_alert \<Rightarrow> string" where
  "render limit a =
     (let w = newMarkdownWriter limit;
          w = snd (write_line title_prefix (escape (ma_title a)) [] w);
          w = foldl (\<lambda>w f. write_field f w) w (ma_fields a);
          w = blankLine w;
          w = snd (write_line body_heading [] [] w)
      in mw_content (write_body (split_all newline (ma_body a)) w))"

section \<open>The client\<close>

record webhook_client =
  wc_url :: string
  wc_title :: string
  wc_environment :: string
  wc_hostname :: string
  wc_maxContentLength :: int
  wc_timeout :: duration
  wc_ignoreKeywords :: "string list"
  wc_errorTypeKeywords :: "string list"
  wc_severityLevels :: "string list"

record hook_response =
  hr_Status :: int
  hr_Body :: string
  hr_BodyErr :: "gerr option"

record 'h hook_ops =
  ho_marshal :: "string \<Rightarrow> gerr + string"
  ho_request :: "string \<Rightarrow> string \<Rightarrow> gerr option"
  ho_do :: "string \<Rightarrow> string \<Rightarrow> 'h \<Rightarrow> (gerr + hook_response) \<times> 'h"
  ho_decode :: "string \<Rightarrow> gerr + (int \<times> string)"
  ho_now :: "'h \<Rightarrow> time \<times> 'h"
  ho_format :: "time \<Rightarrow> string"

text \<open>\<open>url.Parse\<close> gives the scheme and the host; \<open>node_ip\<close> and \<open>hostname\<close> are what the
  environment says.\<close>

definition New_client :: "(string \<Rightarrow> (string \<times> string) option) \<Rightarrow> string \<Rightarrow> string \<Rightarrow>
    (rune \<Rightarrow> rune) \<Rightarrow> webhook_config \<Rightarrow> gerr + webhook_client" where
  "New_client parse_url node_ip hostname uc cfg =
     (case parse_url (wh_URL cfg) of
        None \<Rightarrow> Inl (Errorf ''invalid WeChat webhook URL'')
      | Some (scheme, host) \<Rightarrow>
          if (scheme \<noteq> ''http'' \<and> scheme \<noteq> ''https'') \<or> host = [] then
            Inl (Errorf ''invalid WeChat webhook URL'')
          else
            let node = trim_space node_ip;
                levels = (if wh_SeverityLevels cfg = [] then [''ERROR'', ''FATAL'']
                          else wh_SeverityLevels cfg)
            in Inr \<lparr>wc_url = wh_URL cfg, wc_title = wh_Title cfg,
                 wc_environment = trim_space (wh_Environment cfg),
                 wc_hostname = (if node = [] then hostname else node),
                 wc_maxContentLength = wh_MaxContentLength cfg, wc_timeout = wh_Timeout cfg,
                 wc_ignoreKeywords = wh_IgnoreKeywords cfg,
                 wc_errorTypeKeywords = wh_ErrorTypeKeywords cfg,
                 wc_severityLevels = map (to_upper uc) levels\<rparr>)"

fun firstMatchingKeyword :: "string \<Rightarrow> string list \<Rightarrow> string" where
  "firstMatchingKeyword body [] = []"
| "firstMatchingKeyword body (k # ks) = (if contains body k then k else firstMatchingKeyword body ks)"

definition ignoredKeyword :: "webhook_client \<Rightarrow> string \<Rightarrow> string \<times> bool" where
  "ignoredKeyword c body =
     (let keyword = firstMatchingKeyword body (wc_ignoreKeywords c) in (keyword, keyword \<noteq> []))"

text \<open>Reading a map that may be nil.\<close>

abbreviation nmap_get :: "smap option \<Rightarrow> string \<Rightarrow> string" where
  "nmap_get m k \<equiv> map_get (entries m) k"

definition alert_of :: "'h hook_ops \<Rightarrow> webhook_client \<Rightarrow> log_record \<Rightarrow> time \<Rightarrow> markdown_alert" where
  "alert_of ops c r timestamp =
     \<lparr>ma_title = firstNonEmpty [wc_title c, default_title],
      ma_fields =
       [\<lparr>af_label = label_environment, af_value = wc_environment c, af_highlighted = False\<rparr>,
        \<lparr>af_label = label_host,
          af_value = firstNonEmpty [nmap_get (RecResourceAttributes r) ''host.name'', wc_hostname c],
          af_highlighted = False\<rparr>,
        \<lparr>af_label = label_time, af_value = ho_format ops timestamp, af_highlighted = False\<rparr>,
        \<lparr>af_label = label_level, af_value = SeverityText r, af_highlighted = True\<rparr>,
        \<lparr>af_label = label_error_type,
          af_value = firstMatchingKeyword (Body r) (wc_errorTypeKeywords c), af_highlighted = True\<rparr>,
        \<lparr>af_label = label_source,
          af_value = nmap_get (RecResourceAttributes r) ''log.source.rule'', af_highlighted = False\<rparr>,
        \<lparr>af_label = label_request, af_value = nmap_get (RecAttributes r) ''request.id'',
          af_highlighted = True\<rparr>,
        \<lparr>af_label = label_file, af_value = nmap_get (RecResourceAttributes r) ''log.file.path'',
          af_highlighted = False\<rparr>],
      ma_body = Body r\<rparr>"

definition hook_content :: "'h hook_ops \<Rightarrow> webhook_client \<Rightarrow> log_record \<Rightarrow> 'h \<Rightarrow> string \<times> 'h" where
  "hook_content ops c r h =
     (let (timestamp, h) = (if is_zero_time (Timestamp r) then ho_now ops h else (Timestamp r, h))
      in (render (wc_maxContentLength c) (alert_of ops c r timestamp), h))"

section \<open>One push\<close>

definition check_hook_response :: "'h hook_ops \<Rightarrow> hook_response \<Rightarrow> gerr option" where
  "check_hook_response ops resp =
     (case hr_BodyErr resp of
        Some err \<Rightarrow> Some (Wrap ''read WeChat webhook response: '' err)
      | None \<Rightarrow>
          if hr_Status resp < 200 \<or> 300 \<le> hr_Status resp
          then Some (Errorf (''WeChat webhook HTTP status '' @ format_int (hr_Status resp)))
          else
            (case ho_decode ops (take (64 * 1024) (hr_Body resp)) of
               Inl err \<Rightarrow> Some (Wrap ''decode WeChat webhook response: '' err)
             | Inr (errcode, errmsg) \<Rightarrow>
                 if errcode \<noteq> 0
                 then Some (Errorf (''WeChat webhook rejected message: errcode='' @ format_int errcode
                        @ '' errmsg='' @ errmsg))
                 else None))"

definition Send :: "'h hook_ops \<Rightarrow> webhook_client \<Rightarrow> log_record \<Rightarrow> 'h \<Rightarrow> gerr option \<times> 'h" where
  "Send ops c r h =
     (if SeverityText r \<notin> set (wc_severityLevels c) then (None, h)
      else if snd (ignoredKeyword c (Body r)) then (None, h)
      else
        let (content, h) = hook_content ops c r h in
        (case ho_marshal ops content of
           Inl err \<Rightarrow> (Some err, h)
         | Inr payload \<Rightarrow>
        (case ho_request ops (wc_url c) payload of
           Some err \<Rightarrow> (Some (Errorf ''create WeChat webhook request failed''), h)
         | None \<Rightarrow>
             (case ho_do ops (wc_url c) payload h of
                (Inl err, h) \<Rightarrow> (Some (Errorf ''send WeChat webhook request failed''), h)
              | (Inr resp, h) \<Rightarrow> (check_hook_response ops resp, h)))))"

section \<open>The length of the message\<close>

lemma rune_len_of_runes [simp]: "rune_len (of_runes (take n (runes s))) = min n (rune_len s)"
proof -
  have "\<forall>r \<in> set (take n (runes s)). valid_rune r"
    by (auto dest: in_set_takeD runes_valid)
  then show ?thesis by (simp add: rune_len_def runes_of_runes min.commute)
qed

lemma truncate_idle: "rune_len v \<le> n \<Longrightarrow> truncate_text v n = v"
  by (simp add: truncate_text_def rune_len_def)

lemma rune_len_truncate: "rune_len (truncate_text v n) \<le> n"
proof -
  let ?m = "n - rune_len truncated_suffix"
  have "rune_len (of_runes (take ?m (runes v)) @ truncated_suffix) \<le> ?m + rune_len truncated_suffix"
    by (rule rune_len_append [THEN order_trans]) simp
  then show ?thesis by (auto simp: truncate_text_def Let_def rune_len_def [of v, symmetric])
qed

text \<open>What a writer with \<open>limit\<close> runes has written and may still write.\<close>

definition within :: "int \<Rightarrow> markdown_writer \<Rightarrow> bool" where
  "within limit w \<longleftrightarrow> 0 \<le> mw_remaining w \<and> int (rune_len (mw_content w)) + mw_remaining w \<le> limit"

lemma rune_len_append4:
  "rune_len (a @ b @ c @ d @ e) \<le> rune_len a + rune_len b + rune_len c + rune_len d + rune_len e"
  using rune_len_append [of a "b @ c @ d @ e"] rune_len_append [of b "c @ d @ e"]
    rune_len_append [of c "d @ e"] rune_len_append [of d e] by linarith

lemma write_line_within [bound_intros]:
  assumes "within limit w" "write_line prefix value suffix w = (b, w')"
  shows "within limit w'"
proof -
  let ?fixed = "int (rune_len (separator w) + rune_len prefix + rune_len suffix)"
  let ?v = "truncate_text value (nat (mw_remaining w - ?fixed))"
  have "?fixed \<le> mw_remaining w \<Longrightarrow> int (rune_len ?v) \<le> mw_remaining w - ?fixed"
    using rune_len_truncate [of "value" "nat (mw_remaining w - ?fixed)"] by linarith
  with assms rune_len_append4 [of "mw_content w" "separator w" prefix ?v suffix] show ?thesis
    by (auto simp: write_line_def within_def Let_def split: if_splits)
qed

lemma write_field_within [bound_intros]: "within limit w \<Longrightarrow> within limit (write_field f w)"
  by (auto simp: write_field_def intro: write_line_within [OF _ surjective_pairing])

lemma blankLine_within [bound_intros]: "within limit w \<Longrightarrow> within limit (blankLine w)"
  using rune_len_append [of "mw_content w" "[newline]"] rune_len_le [of "[newline]"]
  by (auto simp: blankLine_def within_def)

lemma write_body_within [bound_intros]: "within limit w \<Longrightarrow> within limit (write_body ls w)"
proof (induction ls w rule: write_body.induct)
  case (2 l ls w)
  obtain b w' where w': "write_line (''> '' @ warningOpen) (escape l) warningClose w = (b, w')"
    by (cases "write_line (''> '' @ warningOpen) (escape l) warningClose w")
  with 2 show ?case
    using write_line_within [OF 2(2) w'] by (auto split: bool.split)
qed simp

lemma fields_within [bound_intros]:
  "within limit w \<Longrightarrow> within limit (foldl (\<lambda>w f. write_field f w) w fs)"
  by (induction fs arbitrary: w) (auto intro: bound_intros)

lemma render_length: "0 \<le> limit \<Longrightarrow> int (rune_len (render limit a)) \<le> limit"
proof -
  assume "0 \<le> limit"
  then have "within limit (newMarkdownWriter limit)"
    by (simp add: within_def newMarkdownWriter_def)
  then have "within limit (snd (write_line title_prefix (escape (ma_title a)) [] (newMarkdownWriter limit)))"
    by (rule write_line_within [OF _ surjective_pairing])
  then have "within limit (write_body (split_all newline (ma_body a))
      (snd (write_line body_heading [] [] (blankLine (foldl (\<lambda>w f. write_field f w)
        (snd (write_line title_prefix (escape (ma_title a)) [] (newMarkdownWriter limit))) (ma_fields a))))))"
    by (rule write_body_within
          [OF write_line_within [OF blankLine_within [OF fields_within] surjective_pairing]])
  then show ?thesis by (simp add: within_def render_def Let_def)
qed

section \<open>Messages that fit\<close>

text \<open>The lines of a message that is not cut; the empty one is the blank line.\<close>

definition alert_lines :: "markdown_alert \<Rightarrow> (string \<times> string \<times> string) list" where
  "alert_lines a =
     (title_prefix, escape (ma_title a), [])
       # map (\<lambda>f. (field_prefix f, escape (af_value f), field_suffix f))
           (filter (\<lambda>f. af_value f \<noteq> []) (ma_fields a))
       @ [([], [], []), (body_heading, [], [])]
       @ map (\<lambda>l. (''> '' @ warningOpen, escape l, warningClose)) (split_all newline (ma_body a))"

definition line_text3 :: "string \<times> string \<times> string \<Rightarrow> string" where
  "line_text3 = (\<lambda>(p, v, s). p @ v @ s)"

definition line_cost :: "string \<times> string \<times> string \<Rightarrow> int" where
  "line_cost = (\<lambda>(p, v, s). int (1 + rune_len p + rune_len v + rune_len s))"

text \<open>A writer after some lines, of which the first takes no separator.\<close>

definition wrote :: "int \<Rightarrow> (string \<times> string \<times> string) list \<Rightarrow> markdown_writer \<Rightarrow> bool" where
  "wrote limit ls w \<longleftrightarrow> mw_content w = join [newline] (map line_text3 ls) \<and> mw_content w \<noteq> []
     \<and> limit + 1 - sum_list (map line_cost ls) \<le> mw_remaining w"

lemma rune_len_newline [simp]: "rune_len [newline] = 1"
  by (simp add: rune_len_def runes_of_bytes)

lemma line_cost_pos: "0 \<le> line_cost l"
  by (simp add: line_cost_def split: prod.split)

lemma write_line_fits:
  assumes "int (rune_len (separator w) + rune_len p + rune_len v + rune_len s) \<le> mw_remaining w"
  shows "write_line p v s w = (True,
    \<lparr>mw_content = mw_content w @ separator w @ p @ v @ s,
     mw_remaining = mw_remaining w - int (rune_len (separator w) + rune_len p + rune_len v + rune_len s)\<rparr>)"
  using assms by (simp add: write_line_def Let_def truncate_idle)

lemma write_line_wrote:
  assumes "wrote limit ls w" "sum_list (map line_cost (ls @ [(p, v, s)])) \<le> limit + 1"
  shows "\<exists>w'. write_line p v s w = (True, w') \<and> wrote limit (ls @ [(p, v, s)]) w'"
proof -
  have w: "mw_content w = join [newline] (map line_text3 ls)" "mw_content w \<noteq> []"
    "limit + 1 - sum_list (map line_cost ls) \<le> mw_remaining w"
    using assms(1) unfolding wrote_def by blast+
  then have "ls \<noteq> []" by auto
  moreover have sep: "separator w = [newline]" using w(2) by (simp add: separator_def)
  moreover from assms(2) w sep have
    "int (rune_len (separator w) + rune_len p + rune_len v + rune_len s) \<le> mw_remaining w"
    by (simp add: line_cost_def)
  ultimately show ?thesis
    using w by (subst write_line_fits) (simp_all add: wrote_def join_snoc line_text3_def line_cost_def)
qed

lemma write_lines_wrote:
  assumes "wrote limit ls w" "sum_list (map line_cost (ls @ map (\<lambda>l. (p, f l, s)) xs)) \<le> limit + 1"
    and "p = ''> '' @ warningOpen" "f = escape" "s = warningClose"
  shows "wrote limit (ls @ map (\<lambda>l. (p, f l, s)) xs) (write_body xs w)"
  using assms(1,2)
proof (induction xs arbitrary: ls w)
  case (Cons x xs)
  have "0 \<le> sum_list (map line_cost (map (\<lambda>l. (p, f l, s)) xs))"
    by (intro sum_list_nonneg) (auto simp: line_cost_pos)
  with Cons.prems(2) have "sum_list (map line_cost (ls @ [(p, f x, s)])) \<le> limit + 1" by simp
  from write_line_wrote [OF Cons.prems(1) this] obtain w' where
    "write_line p (f x) s w = (True, w')" "wrote limit (ls @ [(p, f x, s)]) w'" by blast
  with Cons.IH [of "ls @ [(p, f x, s)]" w'] Cons.prems(2) assms(3-5) show ?case by simp
qed simp

lemma fields_wrote:
  assumes "wrote limit ls w"
    and "sum_list (map line_cost (ls @ map (\<lambda>f. (field_prefix f, escape (af_value f), field_suffix f))
          (filter (\<lambda>f. af_value f \<noteq> []) fs))) \<le> limit + 1"
  shows "wrote limit (ls @ map (\<lambda>f. (field_prefix f, escape (af_value f), field_suffix f))
          (filter (\<lambda>f. af_value f \<noteq> []) fs)) (foldl (\<lambda>w f. write_field f w) w fs)"
  using assms
proof (induction fs arbitrary: ls w)
  case (Cons x fs)
  let ?g = "\<lambda>f. (field_prefix f, escape (af_value f), field_suffix f)"
  show ?case
  proof (cases "af_value x = []")
    case True
    with Cons show ?thesis by (simp add: write_field_def)
  next
    case False
    have "0 \<le> sum_list (map line_cost (map ?g (filter (\<lambda>f. af_value f \<noteq> []) fs)))"
      by (intro sum_list_nonneg) (auto simp: line_cost_pos)
    with Cons.prems(2) False have "sum_list (map line_cost (ls @ [?g x])) \<le> limit + 1" by simp
    from write_line_wrote [OF Cons.prems(1) this] obtain w' where
      "write_line (field_prefix x) (escape (af_value x)) (field_suffix x) w = (True, w')"
      "wrote limit (ls @ [?g x]) w'" by blast
    with Cons.IH [of "ls @ [?g x]" w'] Cons.prems(2) False show ?thesis
      by (simp add: write_field_def)
  qed
qed simp

lemma blank_wrote:
  assumes "wrote limit ls w" "sum_list (map line_cost (ls @ [([], [], [])])) \<le> limit + 1" "ls \<noteq> []"
    and "0 < mw_remaining w"
  shows "wrote limit (ls @ [([], [], [])]) (blankLine w)"
proof -
  have "mw_content w \<noteq> []" using assms(1) unfolding wrote_def by blast
  with assms show ?thesis
    by (simp add: wrote_def blankLine_def join_snoc line_text3_def line_cost_def)
qed

lemma title_wrote:
  assumes "sum_list (map line_cost [(title_prefix, escape t, [])]) \<le> limit + 1"
  shows "wrote limit [(title_prefix, escape t, [])]
    (snd (write_line title_prefix (escape t) [] (newMarkdownWriter limit)))"
  using assms by (subst write_line_fits)
    (simp_all add: newMarkdownWriter_def separator_def wrote_def line_text3_def line_cost_def title_prefix_def)

lemma render_fits:
  assumes "sum_list (map line_cost (alert_lines a)) \<le> limit + 1"
  shows "render limit a = join [newline] (map line_text3 (alert_lines a))"
proof -
  let ?g = "\<lambda>f. (field_prefix f, escape (af_value f), field_suffix f)"
  let ?b = "\<lambda>l. (''> '' @ warningOpen, escape l, warningClose)"
  define t where "t = [(title_prefix, escape (ma_title a), [] :: string)]"
  define fs where "fs = map ?g (filter (\<lambda>f. af_value f \<noteq> []) (ma_fields a))"
  define bs where "bs = map ?b (split_all newline (ma_body a))"
  have lines: "alert_lines a = t @ fs @ [([], [], [])] @ [(body_heading, [], [])] @ bs"
    by (simp add: alert_lines_def t_def fs_def bs_def)
  have pos: "0 \<le> sum_list (map line_cost xs)" for xs
    by (intro sum_list_nonneg) (auto simp: line_cost_pos)
  have le: "sum_list (map line_cost xs) \<le> limit + 1" if "alert_lines a = xs @ ys" for xs ys
    using assms pos [of ys] that by simp
  define w1 where "w1 = snd (write_line title_prefix (escape (ma_title a)) [] (newMarkdownWriter limit))"
  define w2 where "w2 = foldl (\<lambda>w f. write_field f w) w1 (ma_fields a)"
  have w1: "wrote limit t w1"
    unfolding t_def w1_def by (rule title_wrote, fold t_def) (rule le [OF lines])
  have w2: "wrote limit (t @ fs) w2"
    unfolding w2_def fs_def
    by (rule fields_wrote [OF w1], fold fs_def) (rule le [of _ "[([], [], []), (body_heading, [], [])] @ bs"], simp add: lines)
  have "sum_list (map line_cost ((t @ fs) @ [([], [], []), (body_heading, [], [])])) \<le> limit + 1"
    by (rule le [of _ bs]) (simp add: lines)
  then have "0 < mw_remaining w2" using w2 by (simp add: wrote_def line_cost_def)
  then have w3: "wrote limit (t @ fs @ [([], [], [])]) (blankLine w2)"
    using blank_wrote [OF w2] le [of "t @ fs @ [([], [], [])]" "[(body_heading, [], [])] @ bs"]
    by (simp add: lines t_def)
  have "\<exists>w4. write_line body_heading [] [] (blankLine w2) = (True, w4) \<and>
      wrote limit ((t @ fs @ [([], [], [])]) @ [(body_heading, [], [])]) w4"
    by (rule write_line_wrote [OF w3], rule le [of _ bs]) (simp add: lines)
  then obtain w4 where w4: "write_line body_heading [] [] (blankLine w2) = (True, w4)"
    "wrote limit (t @ fs @ [([], [], []), (body_heading, [], [])]) w4" by auto
  have "wrote limit ((t @ fs @ [([], [], []), (body_heading, [], [])]) @ bs)
      (write_body (split_all newline (ma_body a)) w4)"
    unfolding bs_def
    by (rule write_lines_wrote [OF w4(2) _ refl refl refl], fold bs_def)
       (rule le [of _ "[]"], simp add: lines)
  moreover have "render limit a = mw_content (write_body (split_all newline (ma_body a)) w4)"
    using w4(1) by (simp add: render_def Let_def w1_def [symmetric] w2_def [symmetric])
  ultimately show ?thesis by (simp add: wrote_def lines)
qed

section \<open>Escaping\<close>

text \<open>What a reader of the message sees, and the delimiters it would act on, from a state that
  says whether a backslash is pending.\<close>

fun unescape :: "string \<Rightarrow> string" where
  "unescape [] = []"
| "unescape [c] = [c]"
| "unescape (c # d # cs) = (if c = backslash then d # unescape cs else c # unescape (d # cs))"

fun bare :: "bool \<Rightarrow> string \<Rightarrow> string" where
  "bare b [] = []"
| "bare True (c # cs) = bare False cs"
| "bare False (c # cs) =
     (if c = backslash then bare True cs
      else if delimiter c then c # bare False cs else bare False cs)"

lemma unescape_escape [simp]: "unescape (escape s) = s"
proof (induction s)
  case (Cons c cs)
  show ?case
  proof (cases "c = backslash \<or> delimiter c")
    case True
    with Cons show ?thesis by simp
  next
    case False
    with Cons show ?thesis by (cases "escape cs") auto
  qed
qed simp

lemma bare_escape [simp]: "bare False (escape s) = []"
  by (induction s) (auto simp: delimiter_def)

text \<open>Bytes outside ASCII are no delimiters; neither kind of chunk is taken apart by the
  truncation.\<close>

lemma bare_neutral:
  "bs \<noteq> [] \<Longrightarrow> \<forall>c \<in> set bs. 128 \<le> byte c \<Longrightarrow> bare b (bs @ x) = bare False x"
proof (induction bs arbitrary: b)
  case (Cons c bs)
  have "c \<noteq> backslash" "\<not> delimiter c" using Cons.prems(2) by (auto simp: delimiter_def)
  with Cons show ?case by (cases "bs = []"; cases b) simp_all
qed simp

lemma decode_not_ascii:
  assumes "\<not> byte c < 128"
  shows "128 \<le> fst (decode_first c cs)
    \<and> (\<forall>d \<in> set (take (snd (decode_first c cs)) (c # cs)). 128 \<le> byte d)"
proof -
  have "128 \<le> fst (decode_first c cs)"
    using decode_ascii [of c cs] assms by (cases "fst (decode_first c cs) < 128") auto
  moreover have "128 \<le> byte d" if "d \<in> set (take (snd (decode_first c cs) - 1) cs)" for d
    using decode_tail_cont [OF that] by (simp add: cont_byte_def)
  ultimately show ?thesis
    using assms decode_width [of c cs] by (cases "snd (decode_first c cs)") auto
qed

lemma encode_not_ascii: "128 \<le> r \<Longrightarrow> \<forall>c \<in> set (encode_rune r). 128 \<le> byte c"
  by (auto simp: encode_rune_def Let_def RuneError_def valid_rune_def split: if_splits)

lemma bare_prefix:
  "bare b x = [] \<Longrightarrow> bare b (of_runes (take n (runes x))) = []"
proof (induction x arbitrary: b n rule: chunks.induct)
  case 1
  then show ?case by (simp add: of_runes_def)
next
  case (2 c cs)
  let ?r = "fst (decode_first c cs)" and ?k = "snd (decode_first c cs)"
  show ?case
  proof (cases n)
    case 0
    then show ?thesis by (simp add: of_runes_def)
  next
    case (Suc m)
    then have out: "of_runes (take n (runes (c # cs))) =
        encode_rune ?r @ of_runes (take m (runes (drop ?k (c # cs))))"
      by (simp add: runes_Cons of_runes_def)
    show ?thesis
    proof (cases "byte c < 128")
      case True
      then have d: "decode_first c cs = (byte c, 1)" by (simp add: decode_first_def)
      obtain b' where b': "bare b (c # y) = [] \<longleftrightarrow> bare b' y = []" for y
        using 2(2) by (cases b; cases "c = backslash"; cases "delimiter c") auto
      have "encode_rune ?r = [c]" using d True by (simp add: encode_ascii)
      with 2(1) [of b' m] 2(2) b' d out show ?thesis by simp
    next
      case False
      note na = decode_not_ascii [OF False, of cs]
      have k: "take ?k (c # cs) \<noteq> []" using decode_width [of c cs] by (cases ?k) auto
      have "bare b (take ?k (c # cs) @ drop ?k (c # cs)) = bare False (drop ?k (c # cs))"
        using na by (intro bare_neutral [OF k]) blast
      with 2(2) have "bare False (drop ?k (c # cs)) = []" by simp
      then have "bare False (of_runes (take m (runes (drop ?k (c # cs))))) = []" by (rule 2(1))
      moreover have "bare b (encode_rune ?r @ y) = bare False y" for y
        using na by (intro bare_neutral encode_nonempty encode_not_ascii) blast
      ultimately show ?thesis by (simp add: out)
    qed
  qed
qed

lemma bare_plain: "\<forall>c \<in> set y. c \<noteq> backslash \<and> \<not> delimiter c \<Longrightarrow> bare b y = []"
proof (induction y arbitrary: b)
  case (Cons c y)
  then show ?case by (cases b) simp_all
qed simp

lemma bare_append_plain:
  "bare b x = [] \<Longrightarrow> \<forall>c \<in> set y. c \<noteq> backslash \<and> \<not> delimiter c \<Longrightarrow> bare b (x @ y) = []"
proof (induction b x rule: bare.induct)
  case (1 b)
  then show ?case by (simp add: bare_plain)
next
  case (2 c cs)
  then show ?case by simp
next
  case (3 c cs)
  then show ?case by (simp split: if_splits)
qed

lemma bare_truncate: "bare False v = [] \<Longrightarrow> bare False (truncate_text v n) = []"
  unfolding truncate_text_def Let_def
  by (auto intro!: bare_prefix bare_append_plain simp: truncated_suffix_def delimiter_def)

section \<open>Which records are pushed\<close>

lemma firstMatchingKeyword_Nil:
  "[] \<notin> set ks \<Longrightarrow> firstMatchingKeyword body ks = [] \<longleftrightarrow> (\<forall>k \<in> set ks. \<not> contains body k)"
  by (induction ks) auto

definition pushes :: "webhook_client \<Rightarrow> log_record \<Rightarrow> bool" where
  "pushes c r \<longleftrightarrow> SeverityText r \<in> set (wc_severityLevels c)
     \<and> (\<forall>k \<in> set (wc_ignoreKeywords c). \<nexists>a b. Body r = a @ k @ b)"

lemma trim_space_Nil [simp]: "trim_space [] = []"
  by (simp add: trim_space_def)

lemma New_client_fields:
  assumes "New_client parse_url node hostname uc cfg = Inr c" "good_webhook uc cfg"
  shows "wc_url c = wh_URL cfg" "wc_maxContentLength c = wh_MaxContentLength cfg"
    "0 < wc_maxContentLength c" "wc_severityLevels c = map (to_upper uc) (wh_SeverityLevels cfg)"
    "wc_ignoreKeywords c = wh_IgnoreKeywords cfg" "[] \<notin> set (wc_ignoreKeywords c)"
proof -
  have "[] \<notin> set (wh_IgnoreKeywords cfg)"
    using assms(2) trim_space_Nil by (metis UnCI good_webhook_def set_append)
  with assms show "wc_url c = wh_URL cfg" "wc_maxContentLength c = wh_MaxContentLength cfg"
    "0 < wc_maxContentLength c" "wc_severityLevels c = map (to_upper uc) (wh_SeverityLevels cfg)"
    "wc_ignoreKeywords c = wh_IgnoreKeywords cfg" "[] \<notin> set (wc_ignoreKeywords c)"
    by (auto simp: New_client_def good_webhook_def Let_def split: option.splits if_splits)
qed

lemma ignored_iff:
  "[] \<notin> set (wc_ignoreKeywords c) \<Longrightarrow>
     snd (ignoredKeyword c body) \<longleftrightarrow> (\<exists>k \<in> set (wc_ignoreKeywords c). \<exists>a b. body = a @ k @ b)"
  using firstMatchingKeyword_Nil [of "wc_ignoreKeywords c" body]
  by (simp add: ignoredKeyword_def Let_def contains_iff)

lemma Send_skips: "[] \<notin> set (wc_ignoreKeywords c) \<Longrightarrow> \<not> pushes c r \<Longrightarrow> Send ops c r h = (None, h)"
  using ignored_iff [of c "Body r"] by (auto simp: Send_def pushes_def)

lemma check_hook_response_None:
  "check_hook_response ops resp = None \<longleftrightarrow>
     hr_BodyErr resp = None \<and> 200 \<le> hr_Status resp \<and> hr_Status resp < 300
     \<and> (\<exists>msg. ho_decode ops (take (64 * 1024) (hr_Body resp)) = Inr (0, msg))"
  by (auto simp: check_hook_response_def split: option.split sum.split)

lemma Send_pushes:
  assumes "[] \<notin> set (wc_ignoreKeywords c)" "pushes c r" "hook_content ops c r h = (content, h1)"
  shows "Send ops c r h =
     (case ho_marshal ops content of Inl err \<Rightarrow> (Some err, h1)
      | Inr payload \<Rightarrow>
     (case ho_request ops (wc_url c) payload of
        Some err \<Rightarrow> (Some (Errorf ''create WeChat webhook request failed''), h1)
      | None \<Rightarrow>
     (case ho_do ops (wc_url c) payload h1 of
        (Inl err, h2) \<Rightarrow> (Some (Errorf ''send WeChat webhook request failed''), h2)
      | (Inr resp, h2) \<Rightarrow> (check_hook_response ops resp, h2))))"
  using assms ignored_iff [of c "Body r"] by (auto simp: Send_def pushes_def)

section \<open>Properties\<close>

text \<open>C16. A message never has more runes than \<open>max_content_length\<close>, whatever the record
  holds; when title, fields and body fit, nothing is cut: the message is the title line, one line
  for each field that has a value, an empty line, the heading and every line of the body.\<close>

theorem message_bounded:
  assumes "0 \<le> limit"
  shows "int (rune_len (render limit a)) \<le> limit
    \<and> (sum_list (map line_cost (alert_lines a)) \<le> limit + 1 \<longrightarrow>
        render limit a = join [newline] (map line_text3 (alert_lines a)))"
  using render_length [OF assms] render_fits by blast

theorem message_bounded_witness:
  "int (rune_len (render 20 \<lparr>ma_title = ''a<b'', ma_fields = [], ma_body = ''x''\<rparr>)) \<le> 20"
  using message_bounded [of 20 "\<lparr>ma_title = ''a<b'', ma_fields = [], ma_body = ''x''\<rparr>"] by simp

text \<open>C36. Escaping loses nothing and leaves no delimiter active: without the backslashes the text
  is the original one, and neither the escaped text nor what the truncation makes of it has a
  backquote or an angle bracket without a backslash before it.\<close>

theorem escape_is_safe:
  "unescape (escape s) = s \<and> bare False (escape s) = []
   \<and> bare False (truncate_text (escape s) n) = []"
  using bare_truncate [of "escape s" n] by simp

text \<open>C23. The client made of a valid configuration pushes exactly the records of a configured
  level whose body contains no ignored keyword.  For the others nothing is sent.  \<open>Send\<close>
  returns nil for a pushed record only when the server answered 2xx and \<open>errcode\<close> 0, and
  when the transport fails, its error, which may hold the URL with the key of the robot, is not
  in the result.\<close>

theorem Send_decides:
  assumes "New_client parse_url node hostname uc cfg = Inr c" "good_webhook uc cfg"
    and "hook_content ops c r h = (content, h1)" "ho_marshal ops content = Inr payload"
    and "ho_request ops (wh_URL cfg) payload = None"
  shows "wc_severityLevels c = map (to_upper uc) (wh_SeverityLevels cfg)
    \<and> int (rune_len content) \<le> wh_MaxContentLength cfg
    \<and> (\<not> pushes c r \<longrightarrow> Send ops c r h = (None, h))
    \<and> (pushes c r \<longrightarrow>
        (case ho_do ops (wh_URL cfg) payload h1 of
           (Inl err, h2) \<Rightarrow> Send ops c r h = (Some (Errorf ''send WeChat webhook request failed''), h2)
         | (Inr resp, h2) \<Rightarrow> snd (Send ops c r h) = h2
             \<and> (fst (Send ops c r h) = None \<longleftrightarrow>
                 hr_BodyErr resp = None \<and> 200 \<le> hr_Status resp \<and> hr_Status resp < 300
                 \<and> (\<exists>msg. ho_decode ops (take (64 * 1024) (hr_Body resp)) = Inr (0, msg)))))"
proof -
  note c = New_client_fields [OF assms(1,2)]
  have "int (rune_len content) \<le> wh_MaxContentLength cfg"
    using assms(3) c(2,3) render_length
    by (auto simp: hook_content_def split: prod.splits if_splits)
  then show ?thesis
    using c assms(4,5) Send_skips [OF c(6)] Send_pushes [OF c(6) _ assms(3)]
    by (auto simp: check_hook_response_None split: prod.split sum.split)
qed

definition example_hook :: webhook_config where
  "example_hook = (cf_Webhook defaults)\<lparr>wh_Enabled := True, wh_URL := ''https://h/k''\<rparr>"

definition example_hook_ops :: "nat hook_ops" where
  "example_hook_ops = \<lparr>ho_marshal = Inr, ho_request = (\<lambda>u p. None),
     ho_do = (\<lambda>u p h. (Inl (IOErr u), h + 1)), ho_decode = (\<lambda>d. Inr (0, [])),
     ho_now = (\<lambda>h. (0, h)), ho_format = (\<lambda>t. ''now'')\<rparr>"

definition example_error :: log_record where
  "example_error = \<lparr>Body = ''ERROR x'', Timestamp = 1, ObservedTimestamp = 2, SeverityText = ''ERROR'',
     SeverityNumber = 17, Dropped = False, TraceID = [], RecAttributes = None,
     RecResourceAttributes = None, RecResourceKey = []\<rparr>"

definition example_client :: webhook_client where
  "example_client = \<lparr>wc_url = ''https://h/k'', wc_title = default_title, wc_environment = [],
     wc_hostname = ''n'', wc_maxContentLength = 4000, wc_timeout = 5 * second, wc_ignoreKeywords = [],
     wc_errorTypeKeywords = [], wc_severityLevels = [''ERROR'', ''FATAL'']\<rparr>"

lemma to_upper_bytes:
  "\<forall>c \<in> set s. byte c < 97 \<Longrightarrow> to_upper uc s = s"
proof -
  assume s: "\<forall>c \<in> set s. byte c < 97"
  then have "map (upper_rune uc) (map of_char s) = map of_char s"
    by (auto simp: upper_rune_def ascii_upper_def)
  moreover have "\<forall>c \<in> set s. byte c < 128" using s by auto
  ultimately show ?thesis by (simp add: to_upper_def runes_of_bytes of_runes_bytes del: map_map)
qed

theorem Send_decides_witness:
  "Send example_hook_ops example_client example_error 0 =
     (Some (Errorf ''send WeChat webhook request failed''), 1)"
proof -
  have new: "New_client (\<lambda>u. Some (''https'', ''h'')) [] ''n'' id example_hook = Inr example_client"
    by (simp add: New_client_def example_hook_def example_client_def defaults_def to_upper_bytes)
  have good: "good_webhook id example_hook"
    by (simp add: good_webhook_def example_hook_def defaults_def good_levels_def to_upper_bytes
        severity_levels_def second_def)
  have "pushes example_client example_error"
    by (simp add: pushes_def example_client_def example_error_def)
  with Send_decides [OF new good, of example_hook_ops example_error 0 _ 0]
  show ?thesis
    by (simp add: example_hook_ops_def hook_content_def example_error_def is_zero_time_def zero_time_def)
qed

text \<open>The truncation may cut an escaped delimiter in two; the backslash that is left then stands
  before the closing tag of the line.\<close>

lemma truncation_cuts_escape:
  "mw_content (snd (write_line [] (escape ''<'') warningClose \<lparr>mw_content = [], mw_remaining = 8\<rparr>))
     = backslash # warningClose"
  by code_simp

end
