(* ===== verification/Logging.thy ===== *)
theory Logging
  imports Config GoPath
begin

text \<open>
  The program's own log, \<open>internal/logging/logging.go\<close>: which sinks and which level a
  configuration gives, the change of the level at run time, and how the key-value arguments
  of a log call become fields.  The levels of zap are a parameter (\<open>set_level\<close> is
  \<open>Level.Set\<close>), as is \<open>os.MkdirAll\<close>; what is written is not modelled.
\<close>

record roller =
  ro_Filename :: string
  ro_MaxSize :: int
  ro_MaxBackups :: int
  ro_MaxAge :: int
  ro_Compress :: bool

record 'l logger =
  lo_console :: bool
  lo_roller :: "roller option"
  lo_stdout :: bool
  lo_level :: 'l

definition New_logger :: "(string \<Rightarrow> gerr + 'l) \<Rightarrow> (string \<Rightarrow> gerr option) \<Rightarrow> log_config \<Rightarrow> gerr + 'l logger" where
  "New_logger set_level mkdir cfg =
     (case set_level (lg_Level cfg) of
        Inl err \<Rightarrow> Inl err
      | Inr level \<Rightarrow>
          (case (if lg_File cfg \<noteq> [] then mkdir (Dir (lg_File cfg)) else None) of
             Some err \<Rightarrow> Inl err
           | None \<Rightarrow>
               if lg_File cfg = [] \<and> \<not> lg_AlsoStdout cfg then Inl (Errorf ''no log output configured'')
               else Inr \<lparr>lo_console = (lg_Format cfg = ''console''),
                      lo_roller = (if lg_File cfg \<noteq> [] then
                        Some \<lparr>ro_Filename = lg_File cfg, ro_MaxSize = lg_MaxSizeMB cfg,
                          ro_MaxBackups = lg_MaxBackups cfg, ro_MaxAge = lg_MaxAgeDays cfg,
                          ro_Compress = lg_Compress cfg\<rparr> else None),
                      lo_stdout = lg_AlsoStdout cfg, lo_level = level\<rparr>))"

definition SetLevel :: "(string \<Rightarrow> gerr + 'l) \<Rightarrow> string \<Rightarrow> 'l logger \<Rightarrow> gerr option \<times> 'l logger" where
  "SetLevel set_level v l =
     (case set_level v of Inl err \<Rightarrow> (Some err, l) | Inr level \<Rightarrow> (None, l\<lparr>lo_level := level\<rparr>))"

text \<open>\<open>Close\<close>; the error of \<open>Sync\<close> is ignored.\<close>

definition Close_logger :: "(roller \<Rightarrow> gerr option) \<Rightarrow> 'l logger \<Rightarrow> gerr option" where
  "Close_logger close_roller l = (case lo_roller l of None \<Rightarrow> None | Some r \<Rightarrow> close_roller r)"

text \<open>An argument of a log call is a string or some other value; a field is a key and a value.\<close>

datatype 'v arg = Str string | Other 'v

fun log_fields :: "'v arg list \<Rightarrow> (string \<times> 'v arg) list" where
  "log_fields [] = []"
| "log_fields [x] = [(''extra'', x)]"
| "log_fields (k # v # rest) =
     ((case k of Str s \<Rightarrow> s | Other x \<Rightarrow> ''field''), v) # log_fields rest"

text \<open>Every value appears once, in order; string keys are kept.\<close>

lemma log_fields_pairs:
  "log_fields (concat (map (\<lambda>(k, v). [Str k, v]) kvs)) = kvs"
  by (induction kvs) auto

lemma log_fields_length: "length (log_fields args) = (length args + 1) div 2"
  by (induction args rule: log_fields.induct) auto

lemma New_logger_valid:
  assumes "good_log cfg" "set_level (lg_Level cfg) = Inr level"
    and "lg_File cfg \<noteq> [] \<longrightarrow> mkdir (Dir (lg_File cfg)) = None"
  shows "\<exists>l. New_logger set_level mkdir cfg = Inr l \<and> lo_level l = level
    \<and> (lo_roller l \<noteq> None \<or> lo_stdout l)"
  using assms by (auto simp: New_logger_def good_log_def)

end
