(* ===== verification/App.thy ===== *)
theory App
  imports Pipeline Webhook Targets Logging
begin

text \<open>
  The application, \<open>internal/app/app.go\<close> and \<open>cmd/log-collector/main.go\<close>: the start-up
  sequence, the hot reload of the configuration, what the three periodic actions and the
  shut-down do.  When the goroutines run is in \<open>Scheduler\<close>.
\<close>

section \<open>The store of targets\<close>

definition Set_targets :: "file_target list \<Rightarrow> file_target list \<Rightarrow> file_target list" where
  "Set_targets targets store = targets"

definition Get_targets :: "file_target list \<Rightarrow> file_target list" where
  "Get_targets store = [] @ store"

section \<open>Comparing configurations\<close>

text \<open>\<open>reflect.DeepEqual\<close> compares maps as maps, so they are sorted by key here; it tells a nil
  slice from an empty one, for which a configuration comes with the list of its nil slices for
  each section (\<open>nils\<close>); and \<open>NaN\<close> differs from itself.\<close>

type_synonym nils = "string \<Rightarrow> bool list"

definition norm_map :: "smap option \<Rightarrow> smap option" where
  "norm_map m = map_option (sort_key fst) m"

definition norm_sources :: "sources_config \<Rightarrow> sources_config" where
  "norm_sources s =
     \<lparr>sr_Processes = map (\<lambda>r. r\<lparr>pr_Attributes := norm_map (pr_Attributes r)\<rparr>) (sr_Processes s),
      sr_Files = map (\<lambda>r. r\<lparr>fr_Attributes := norm_map (fr_Attributes r)\<rparr>) (sr_Files s),
      sr_Containers = map (\<lambda>r. r\<lparr>fr_Attributes := norm_map (fr_Attributes r)\<rparr>) (sr_Containers s)\<rparr>"

definition norm_export :: "export_config \<Rightarrow> export_config" where
  "norm_export x = x\<lparr>ex_Headers := norm_map (ex_Headers x)\<rparr>"

fun float_eq :: "float64 \<Rightarrow> float64 \<Rightarrow> bool" where
  "float_eq (Finite m e) (Finite n f) =
     (if e \<le> f then m = n * 2 ^ nat (f - e) else m * 2 ^ nat (e - f) = n)"
| "float_eq PosInf PosInf = True"
| "float_eq NegInf NegInf = True"
| "float_eq x y = False"

definition flow_equal :: "flow_control_config \<Rightarrow> flow_control_config \<Rightarrow> bool" where
  "flow_equal a b \<longleftrightarrow> float_eq (fc_RatePerSecond a) (fc_RatePerSecond b)
     \<and> a\<lparr>fc_RatePerSecond := NaN\<rparr> = b\<lparr>fc_RatePerSecond := NaN\<rparr>"

definition sections_equal :: "config \<times> nils \<Rightarrow> config \<times> nils \<Rightarrow> (string \<times> bool) list" where
  "sections_equal = (\<lambda>(a, na) (b, nb).
     [(''log except level'', (cf_Log a)\<lparr>lg_Level := []\<rparr> = (cf_Log b)\<lparr>lg_Level := []\<rparr>),
      (''state'', cf_State a = cf_State b),
      (''sources'', norm_sources (cf_Sources a) = norm_sources (cf_Sources b) \<and> na ''sources'' = nb ''sources''),
      (''export'', norm_export (cf_Export a) = norm_export (cf_Export b)),
      (''performance'', cf_Performance a = cf_Performance b),
      (''flow_control'', flow_equal (cf_FlowControl a) (cf_FlowControl b))])"

definition restartRequiredChanges :: "config \<times> nils \<Rightarrow> config \<times> nils \<Rightarrow> string list" where
  "restartRequiredChanges active next =
     map fst (filter (\<lambda>(name, same). \<not> same) (sections_equal active next))"

definition webhook_equal :: "config \<times> nils \<Rightarrow> config \<times> nils \<Rightarrow> bool" where
  "webhook_equal = (\<lambda>(a, na) (b, nb). cf_Webhook a = cf_Webhook b \<and> na ''webhook'' = nb ''webhook'')"

section \<open>Hot reload\<close>

record 'l live =
  lv_active :: "config \<times> nils"
  lv_hook :: "webhook_client option"
  lv_logger :: "'l logger"

text \<open>What the reload logs: it was rejected, or applied, and the sections that need a restart.\<close>

datatype reload_log = ReloadRejected "gerr + config_error" | ReloadApplied | RestartNeeded "string list"

definition adopt :: "config \<times> nils \<Rightarrow> config \<times> nils \<Rightarrow> config \<times> nils" where
  "adopt active next =
     ((fst active)\<lparr>cf_Webhook := cf_Webhook (fst next),
                   cf_Log := (cf_Log (fst active))\<lparr>lg_Level := lg_Level (cf_Log (fst next))\<rparr>\<rparr>,
      (snd active)(''webhook'' := snd next ''webhook''))"

definition next_hook :: "(webhook_config \<Rightarrow> gerr + webhook_client) \<Rightarrow> bool \<Rightarrow> webhook_config \<Rightarrow>
    gerr + webhook_client option" where
  "next_hook new_hook webhookChanged cfg =
     (if webhookChanged \<and> wh_Enabled cfg
      then (case new_hook cfg of Inl err \<Rightarrow> Inl err | Inr c \<Rightarrow> Inr (Some c))
      else Inr None)"

definition reloadConfig :: "(webhook_config \<Rightarrow> gerr + webhook_client) \<Rightarrow> (string \<Rightarrow> gerr + 'l) \<Rightarrow>
    (gerr + config_error) + (config \<times> nils) \<Rightarrow> 'l live \<Rightarrow> reload_log list \<times> 'l live" where
  "reloadConfig new_hook set_level result lv =
     (case result of
        Inl err \<Rightarrow> ([ReloadRejected err], lv)
      | Inr next \<Rightarrow>
          let restartChanges = restartRequiredChanges (lv_active lv) next;
              webhookChanged = (\<not> webhook_equal (lv_active lv) next);
              levelChanged = (lg_Level (cf_Log (fst (lv_active lv))) \<noteq> lg_Level (cf_Log (fst next)))
          in (case next_hook new_hook webhookChanged (cf_Webhook (fst next)) of
                Inl err \<Rightarrow> ([ReloadRejected (Inl err)], lv)
              | Inr nextHook \<Rightarrow>
                  (case (if levelChanged then SetLevel set_level (lg_Level (cf_Log (fst next))) (lv_logger lv)
                         else (None, lv_logger lv)) of
                     (Some err, logger) \<Rightarrow> ([ReloadRejected (Inl err)], lv)
                   | (None, logger) \<Rightarrow>
                       ((if webhookChanged \<or> levelChanged then [ReloadApplied] else [])
                          @ (if restartChanges \<noteq> [] then [RestartNeeded restartChanges] else []),
                        \<lparr>lv_active = adopt (lv_active lv) next,
                         lv_hook = (if webhookChanged then nextHook else lv_hook lv),
                         lv_logger = logger\<rparr>))))"

section \<open>Start-up\<close>

text \<open>\<open>exporter.New\<close>: \<open>parse_url\<close> gives scheme, host and path, \<open>with_path\<close> the text of
  the URL with another path.\<close>

definition New_exporter :: "(string \<Rightarrow> (string \<times> string \<times> string) option) \<Rightarrow> (string \<Rightarrow> string \<Rightarrow> string) \<Rightarrow>
    export_config \<Rightarrow> 'n \<Rightarrow> gerr + (export_config \<times> 'n exporter)" where
  "New_exporter parse_url with_path cfg n =
     (case parse_url (ex_Endpoint cfg) of
        None \<Rightarrow> Inl (Errorf (''invalid OTLP endpoint '' @ ex_Endpoint cfg))
      | Some (scheme, host, path) \<Rightarrow>
          if scheme = [] \<or> host = [] then Inl (Errorf (''invalid OTLP endpoint '' @ ex_Endpoint cfg))
          else Inr (if path = [] \<or> path = ''/''
                    then cfg\<lparr>ex_Endpoint := with_path (ex_Endpoint cfg) ''/v1/logs''\<rparr> else cfg,
                    new_exporter n))"

definition limits_of :: "performance_config \<Rightarrow> limits" where
  "limits_of p = \<lparr>lim_read = pf_MaxReadBytesPerFile p, lim_log = nat (pf_MaxLogSize p),
     lim_multiline = nat (pf_MaxMultilineSize p), lim_lines = nat (pf_MaxMultilineLines p)\<rparr>"

definition New_tailer :: "store \<Rightarrow> 'w \<Rightarrow> 'w tailer" where
  "New_tailer st w = \<lparr>tl_state = st, tl_pending = [], tl_next = 0, tl_world = w\<rparr>"

record 'n started =
  sd_store :: loaded_store
  sd_export :: "(export_config \<times> 'n exporter) option"
  sd_hook :: "webhook_client option"
  sd_discovery :: discovery

text \<open>The part of \<open>Run\<close> before the loops, with its early returns.\<close>

definition start_up :: "gerr + loaded_store \<Rightarrow> (export_config \<Rightarrow> gerr + (export_config \<times> 'n exporter)) \<Rightarrow>
    (webhook_config \<Rightarrow> gerr + webhook_client) \<Rightarrow> (sources_config \<Rightarrow> duration \<Rightarrow> gerr + discovery) \<Rightarrow>
    gerr option \<Rightarrow> config \<Rightarrow> gerr + 'n started" where
  "start_up load_state new_export new_hook new_disc watch cfg =
     (case load_state of Inl err \<Rightarrow> Inl err | Inr st \<Rightarrow>
     (case (if ex_Enabled (cf_Export cfg)
            then (case new_export (cf_Export cfg) of Inl err \<Rightarrow> Inl err | Inr x \<Rightarrow> Inr (Some x))
            else Inr None) of Inl err \<Rightarrow> Inl err | Inr x \<Rightarrow>
     (case next_hook new_hook True (cf_Webhook cfg) of Inl err \<Rightarrow> Inl err | Inr h \<Rightarrow>
     (case new_disc (cf_Sources cfg) (pf_CacheTTL (cf_Performance cfg)) of Inl err \<Rightarrow> Inl err | Inr d \<Rightarrow>
     (case watch of Some err \<Rightarrow> Inl err
      | None \<Rightarrow> Inr \<lparr>sd_store = st, sd_export = x, sd_hook = h, sd_discovery = d\<rparr>)))))"

section \<open>The periodic actions\<close>

fun is_canceled :: "gerr \<Rightarrow> bool" where
  "is_canceled Canceled = True"
| "is_canceled (Wrap msg err) = is_canceled err"
| "is_canceled err = False"

definition discovery_tick :: "(string \<Rightarrow> string list) \<Rightarrow> (string \<Rightarrow> bool) \<Rightarrow> gerr option \<times> proc list \<Rightarrow> time \<Rightarrow>
    discovery \<times> file_target list \<Rightarrow> gerr option \<times> discovery \<times> file_target list" where
  "discovery_tick glob regular processes now ds =
     (case Discover glob regular processes now (fst ds) of
        ((found, err), d) \<Rightarrow> (None, d, Set_targets found (snd ds)))"

definition read_tick :: "'w env \<Rightarrow> limits \<Rightarrow> (string \<Rightarrow> gerr + file_view) \<Rightarrow> nat option \<Rightarrow>
    file_target list \<Rightarrow> 'w tailer \<Rightarrow> gerr option \<times> 'w tailer" where
  "read_tick e lim fs cancelled targets s =
     (case Poll e lim fs cancelled (Get_targets targets) s of
        (Some err, s) \<Rightarrow> (if is_canceled err then None else Some err, s)
      | (None, s) \<Rightarrow> (None, s))"

definition save_tick :: "(positions \<Rightarrow> gerr + string) \<Rightarrow> io_calls \<Rightarrow> (string \<Rightarrow> gerr + stat_t option) \<Rightarrow>
    duration \<Rightarrow> time \<Rightarrow> store \<times> disk \<Rightarrow> gerr option \<times> store \<times> disk" where
  "save_tick marshal io stat cacheTTL now sd =
     SaveIfDirty marshal io (Cleanup (now - cacheTTL) stat (fst sd), snd sd)"

section \<open>Shut-down\<close>

text \<open>The exporter, told to stop.  \<open>stopExporter\<close> cancels its context: a flush that is running
  under it fails or, if the answer is already there, succeeds, and the select may still choose the
  queue or the ticker (\<open>late\<close>), whose flushes run under the cancelled context (\<open>late_send\<close>).
  An error of such a flush ends \<open>Run\<close> at once; only an exporter that is still running when it sees
  its context done drains the queue, under a context of its own.\<close>

definition stop_exporter :: "export_config \<Rightarrow> 'n sender \<Rightarrow> 'n sender \<Rightarrow> action list \<Rightarrow> 'n exporter \<Rightarrow> 'n exporter" where
  "stop_exporter cfg late_send last_send late q =
     (let q = fold (act cfg late_send []) late q
      in if xq_phase q = Running
         then (case shutdown_run cfg last_send (q\<lparr>xq_phase := Draining\<rparr>) of
                 (err, q) \<Rightarrow> q\<lparr>xq_phase := Stopped err\<rparr>)
         else q)"

definition with_queue :: "('n exporter \<Rightarrow> 'n exporter) \<Rightarrow> ('b, ('h, 'n) outputs) flow \<Rightarrow> ('b, ('h, 'n) outputs) flow" where
  "with_queue f w = w\<lparr>fl_next := (fl_next w)\<lparr>ou_queue :=
     (fst (ou_queue (fl_next w)), f (snd (ou_queue (fl_next w))))\<rparr>\<rparr>"

abbreviation queue_of :: "('b, ('h, 'n) outputs) flow tailer \<Rightarrow> 'n exporter" where
  "queue_of s \<equiv> snd (ou_queue (fl_next (tl_world s)))"

definition shutdown_app :: "('b, ('h, 'n) outputs) flow env \<Rightarrow> (positions \<Rightarrow> gerr + string) \<Rightarrow> io_calls \<Rightarrow>
    (export_config \<times> 'n sender \<times> 'n sender \<times> action list) option \<Rightarrow> gerr option \<Rightarrow> ('b, ('h, 'n) outputs) flow tailer \<times> disk \<Rightarrow>
    gerr option \<times> ('b, ('h, 'n) outputs) flow tailer \<times> disk" where
  "shutdown_app e marshal io export runErr sd =
     (case Close e marshal io sd of
        (err, s, d) \<Rightarrow>
          ((case runErr of None \<Rightarrow> err | Some x \<Rightarrow> Some x),
           (case export of None \<Rightarrow> s
            | Some (cfg, late_send, last_send, late) \<Rightarrow>
                s\<lparr>tl_world := with_queue (stop_exporter cfg late_send last_send late) (tl_world s)\<rparr>), d))"

section \<open>The command\<close>

definition main_exit :: "gerr + config \<Rightarrow> (log_config \<Rightarrow> gerr + 'l logger) \<Rightarrow> (config \<Rightarrow> 'l logger \<Rightarrow> gerr option) \<Rightarrow> nat" where
  "main_exit load new_logger run =
     (case load of Inl err \<Rightarrow> 1
      | Inr cfg \<Rightarrow>
          (case new_logger (cf_Log cfg) of Inl err \<Rightarrow> 1
           | Inr l \<Rightarrow> (case run cfg l of Some err \<Rightarrow> 1 | None \<Rightarrow> 0)))"

section \<open>Reloading\<close>

text \<open>A whole sequence of reloads, each with the result of loading the file.\<close>

definition reload_all :: "(webhook_config \<Rightarrow> gerr + webhook_client) \<Rightarrow> (string \<Rightarrow> gerr + 'l) \<Rightarrow>
    ((gerr + config_error) + (config \<times> nils)) list \<Rightarrow> 'l live \<Rightarrow> 'l live" where
  "reload_all new_hook set_level results lv =
     fold (\<lambda>result lv. snd (reloadConfig new_hook set_level result lv)) results lv"

abbreviation level_of :: "config \<times> nils \<Rightarrow> string" where
  "level_of c \<equiv> lg_Level (cf_Log (fst c))"

definition hook_matches :: "(webhook_config \<Rightarrow> gerr + webhook_client) \<Rightarrow> webhook_config \<Rightarrow> webhook_client option \<Rightarrow> bool" where
  "hook_matches new_hook cfg hook \<longleftrightarrow>
     (case hook of None \<Rightarrow> \<not> wh_Enabled cfg | Some c \<Rightarrow> wh_Enabled cfg \<and> new_hook cfg = Inr c)"

text \<open>What holds between a start configuration and the state after reloads of \<open>done\<close>.\<close>

definition live_inv :: "(webhook_config \<Rightarrow> gerr + webhook_client) \<Rightarrow> (string \<Rightarrow> gerr + 'l) \<Rightarrow> 'l live \<Rightarrow>
    ((gerr + config_error) + (config \<times> nils)) list \<Rightarrow> 'l live \<Rightarrow> bool" where
  "live_inv new_hook set_level lv0 results lv \<longleftrightarrow>
     (\<exists>next. (next = lv_active lv0 \<or> Inr next \<in> set results) \<and> lv_active lv = adopt (lv_active lv0) next)
     \<and> hook_matches new_hook (cf_Webhook (fst (lv_active lv))) (lv_hook lv)
     \<and> set_level (level_of (lv_active lv)) = Inr (lo_level (lv_logger lv))
     \<and> lv_logger lv = (lv_logger lv0)\<lparr>lo_level := lo_level (lv_logger lv)\<rparr>"

lemma adopt_self [simp]: "adopt c c = c"
  by (cases c) (simp add: adopt_def)

lemma adopt_adopt [simp]: "adopt (adopt c d) e = adopt c e"
  by (simp add: adopt_def)

lemma adopt_fields [simp]:
  "cf_Webhook (fst (adopt c d)) = cf_Webhook (fst d)" "level_of (adopt c d) = level_of d"
  by (simp_all add: adopt_def)

lemma restartRequiredChanges_adopt [simp]:
  "restartRequiredChanges (adopt c d) e = restartRequiredChanges c e"
  by (cases c; cases e) (simp add: restartRequiredChanges_def sections_equal_def adopt_def)

lemma next_hook_matches:
  "next_hook new_hook changed cfg = Inr h \<Longrightarrow> changed \<Longrightarrow> hook_matches new_hook cfg h"
  by (auto simp: next_hook_def hook_matches_def split: if_splits sum.splits)

lemma webhook_equalD: "webhook_equal c d \<Longrightarrow> cf_Webhook (fst c) = cf_Webhook (fst d)"
  by (cases c; cases d) (simp add: webhook_equal_def)

text \<open>Why a reload is rejected.\<close>

definition reload_error :: "(webhook_config \<Rightarrow> gerr + webhook_client) \<Rightarrow> (string \<Rightarrow> gerr + 'l) \<Rightarrow>
    (gerr + config_error) + (config \<times> nils) \<Rightarrow> 'l live \<Rightarrow> (gerr + config_error) option" where
  "reload_error new_hook set_level result lv =
     (case result of Inl err \<Rightarrow> Some err
      | Inr next \<Rightarrow>
          (case (if \<not> webhook_equal (lv_active lv) next \<and> wh_Enabled (cf_Webhook (fst next))
                 then new_hook (cf_Webhook (fst next)) else Inr undefined) of
             Inl err \<Rightarrow> Some (Inl err)
           | Inr c \<Rightarrow>
               if level_of (lv_active lv) = level_of next then None
               else (case set_level (level_of next) of Inl err \<Rightarrow> Some (Inl err) | Inr l \<Rightarrow> None)))"

lemma reload_rejected:
  "reload_error new_hook set_level result lv = Some err \<Longrightarrow>
     reloadConfig new_hook set_level result lv = ([ReloadRejected err], lv)"
  by (auto simp: reload_error_def reloadConfig_def next_hook_def SetLevel_def Let_def
      split: sum.splits if_splits prod.splits)

lemma reload_applied:
  assumes "reload_error new_hook set_level result lv = None"
    and "reloadConfig new_hook set_level result lv = (log, lv')"
  obtains "next" where "result = Inr next" "lv_active lv' = adopt (lv_active lv) next"
    "lv_hook lv' = (if webhook_equal (lv_active lv) next then lv_hook lv else lv_hook lv')"
    "webhook_equal (lv_active lv) next \<or> hook_matches new_hook (cf_Webhook (fst next)) (lv_hook lv')"
    "level_of (lv_active lv) = level_of next \<and> lv_logger lv' = lv_logger lv
      \<or> (\<exists>l. set_level (level_of next) = Inr l \<and> lv_logger lv' = (lv_logger lv)\<lparr>lo_level := l\<rparr>)"
    "log = (if webhook_equal (lv_active lv) next \<and> level_of (lv_active lv) = level_of next then [] else [ReloadApplied])
      @ (if restartRequiredChanges (lv_active lv) next = [] then []
         else [RestartNeeded (restartRequiredChanges (lv_active lv) next)])"
proof -
  from assms(1) obtain "next" where r: "result = Inr next"
    by (auto simp: reload_error_def split: sum.splits)
  show ?thesis
    by (rule that [OF r])
      (use assms r in \<open>auto simp: reload_error_def reloadConfig_def next_hook_def SetLevel_def Let_def hook_matches_def
        split: sum.splits if_splits prod.splits option.splits\<close>)
qed

lemma live_inv_reload:
  assumes "live_inv new_hook set_level lv0 results lv"
  shows "live_inv new_hook set_level lv0 (results @ [result]) (snd (reloadConfig new_hook set_level result lv))"
proof (cases "reload_error new_hook set_level result lv")
  case (Some err)
  with assms reload_rejected [OF Some] show ?thesis by (auto simp: live_inv_def)
next
  case None
  obtain log lv' where run: "reloadConfig new_hook set_level result lv = (log, lv')" by fastforce
  from None run show ?thesis
  proof (cases rule: reload_applied)
    case (1 "next")
    have active: "lv_active lv' = adopt (lv_active lv0) next"
      using 1(2) assms by (auto simp: live_inv_def)
    have "hook_matches new_hook (cf_Webhook (fst next)) (lv_hook lv')"
    proof (cases "webhook_equal (lv_active lv) next")
      case True
      with assms 1(3) webhook_equalD [OF True] show ?thesis by (simp add: live_inv_def)
    qed (use 1(4) in simp)
    moreover have "set_level (level_of next) = Inr (lo_level (lv_logger lv'))
        \<and> lv_logger lv' = (lv_logger lv0)\<lparr>lo_level := lo_level (lv_logger lv')\<rparr>"
    proof -
      from assms have l: "set_level (level_of (lv_active lv)) = Inr (lo_level (lv_logger lv))"
        "lv_logger lv = (lv_logger lv0)\<lparr>lo_level := lo_level (lv_logger lv)\<rparr>" by (simp_all add: live_inv_def)
      from 1(5) show ?thesis
      proof (elim disjE exE conjE)
        fix l assume a: "set_level (level_of next) = Inr l" "lv_logger lv' = (lv_logger lv)\<lparr>lo_level := l\<rparr>"
        have "lv_logger lv' = (lv_logger lv0)\<lparr>lo_level := l\<rparr>" unfolding a(2) by (subst l(2)) simp
        then show ?thesis using a(1) by simp
      qed (use l in simp)
    qed
    moreover have "\<exists>c. (c = lv_active lv0 \<or> Inr c \<in> set (results @ [result])) \<and> lv_active lv' = adopt (lv_active lv0) c"
      using active 1(1) by (intro exI [of _ "next"]) simp
    ultimately show ?thesis using active run by (simp add: live_inv_def)
  qed
qed

lemma live_inv_all:
  assumes "live_inv new_hook set_level lv0 [] lv0"
  shows "live_inv new_hook set_level lv0 results (reload_all new_hook set_level results lv0)"
proof (induction results rule: rev_induct)
  case Nil
  with assms show ?case by (simp add: reload_all_def)
next
  case (snoc result results)
  from live_inv_reload [OF this, of result] show ?case by (simp add: reload_all_def)
qed

section \<open>Properties of the reload\<close>

text \<open>What one loaded file makes of the program: the configuration of the start with the file's
  webhook section and level, the client made from that section, and the logger at that level.\<close>

definition hook_of :: "(webhook_config \<Rightarrow> gerr + webhook_client) \<Rightarrow> webhook_config \<Rightarrow> webhook_client option" where
  "hook_of new_hook cfg =
     (if wh_Enabled cfg then (case new_hook cfg of Inl err \<Rightarrow> None | Inr c \<Rightarrow> Some c) else None)"

definition live_of :: "(webhook_config \<Rightarrow> gerr + webhook_client) \<Rightarrow> (string \<Rightarrow> gerr + 'l) \<Rightarrow> 'l live \<Rightarrow>
    config \<times> nils \<Rightarrow> 'l live" where
  "live_of new_hook set_level lv0 c =
     \<lparr>lv_active = adopt (lv_active lv0) c, lv_hook = hook_of new_hook (cf_Webhook (fst c)),
      lv_logger = (case set_level (level_of c) of
        Inl err \<Rightarrow> lv_logger lv0 | Inr l \<Rightarrow> (lv_logger lv0)\<lparr>lo_level := l\<rparr>)\<rparr>"

definition loadable :: "(webhook_config \<Rightarrow> gerr + webhook_client) \<Rightarrow> (string \<Rightarrow> gerr + 'l) \<Rightarrow>
    (gerr + config_error) + (config \<times> nils) \<Rightarrow> bool" where
  "loadable new_hook set_level result \<longleftrightarrow>
     (case result of Inl err \<Rightarrow> False
      | Inr next \<Rightarrow>
          (wh_Enabled (cf_Webhook (fst next)) \<longrightarrow> \<not> isl (new_hook (cf_Webhook (fst next))))
          \<and> \<not> isl (set_level (level_of next)))"

lemma not_isl_Inr: "\<not> isl x \<longleftrightarrow> (\<exists>y. x = Inr y)"
  by (cases x) simp_all

text \<open>One reload from such a state.\<close>

lemma reload_live_of:
  assumes "loadable new_hook set_level (Inr c)" "lv = live_of new_hook set_level lv0 c"
    and "reloadConfig new_hook set_level result lv = (log, lv')"
  shows "if loadable new_hook set_level result
    then lv' = live_of new_hook set_level lv0 (projr result) \<and> (\<forall>err. ReloadRejected err \<notin> set log)
    else lv' = lv \<and> (\<exists>err. log = [ReloadRejected err])"
proof (cases result)
  case (Inl err)
  with assms(3) show ?thesis by (auto simp: loadable_def reloadConfig_def)
next
  case (Inr "next")
  let ?act = "adopt (lv_active lv0) c"
  obtain l where l: "set_level (level_of c) = Inr l" using assms(1) by (auto simp: loadable_def not_isl_Inr)
  have lv: "lv_active lv = ?act" "lv_hook lv = hook_of new_hook (cf_Webhook (fst c))"
    "lv_logger lv = (lv_logger lv0)\<lparr>lo_level := l\<rparr>" using assms(2) l by (simp_all add: live_of_def)
  have same_hook: "cf_Webhook (fst next) = cf_Webhook (fst c)" if "webhook_equal ?act next"
    using webhook_equalD [OF that] by simp
  have known: "wh_Enabled (cf_Webhook (fst c)) \<longrightarrow> \<not> isl (new_hook (cf_Webhook (fst c)))"
    using assms(1) by (simp add: loadable_def)
  show ?thesis
  proof (cases "loadable new_hook set_level result")
    case False
    then have "reload_error new_hook set_level result lv \<noteq> None"
      using Inr lv(1) same_hook known l
      by (cases "webhook_equal ?act next"; cases "new_hook (cf_Webhook (fst next))"; cases "set_level (level_of next)")
         (auto simp: loadable_def reload_error_def)
    with reload_rejected assms(3) False show ?thesis by fastforce
  next
    case True
    then have none: "reload_error new_hook set_level result lv = None"
      using Inr by (auto simp: loadable_def reload_error_def not_isl_Inr split: sum.splits)
    obtain k where k: "set_level (level_of next) = Inr k" using True Inr by (auto simp: loadable_def not_isl_Inr)
    from none assms(3) show ?thesis
    proof (cases rule: reload_applied)
      case (1 n)
      then have n: "n = next" using Inr by simp
      have "lv_active lv' = adopt (lv_active lv0) next" using 1(2) lv(1) n by simp
      moreover have "lv_hook lv' = hook_of new_hook (cf_Webhook (fst next))"
      proof (cases "webhook_equal ?act next")
        case True
        then show ?thesis using 1(3) lv n same_hook by simp
      next
        case False
        then show ?thesis using 1(4) lv(1) n by (auto simp: hook_matches_def hook_of_def split: option.splits)
      qed
      moreover have "lv_logger lv' = (lv_logger lv0)\<lparr>lo_level := k\<rparr>"
        using 1(5) lv(1,3) n l k by auto
      ultimately have "lv' = live_of new_hook set_level lv0 next" using k by (simp add: live_of_def)
      moreover have "\<forall>err. ReloadRejected err \<notin> set log" using 1(6) by auto
      ultimately show ?thesis using True Inr by simp
    qed
  qed
qed

text \<open>The files loaded so far, from the configuration of the start on; the last one counts.\<close>

lemma reload_all_live_of:
  assumes "loadable new_hook set_level (Inr (lv_active lv0))" "lv0 = live_of new_hook set_level lv0 (lv_active lv0)"
    and "c = last (lv_active lv0 # map projr (filter (loadable new_hook set_level) results))"
  shows "loadable new_hook set_level (Inr c) \<and> reload_all new_hook set_level results lv0 = live_of new_hook set_level lv0 c"
  using assms(3)
proof (induction results arbitrary: c rule: rev_induct)
  case Nil
  with assms(1,2) show ?case by (simp add: reload_all_def)
next
  case (snoc result results)
  define c1 where "c1 = last (lv_active lv0 # map projr (filter (loadable new_hook set_level) results))"
  note IH = snoc.IH [OF c1_def]
  let ?lv = "reload_all new_hook set_level results lv0"
  obtain log lv' where run: "reloadConfig new_hook set_level result ?lv = (log, lv')" by fastforce
  note step = reload_live_of [OF conjunct1 [OF IH] conjunct2 [OF IH] run]
  have all: "reload_all new_hook set_level (results @ [result]) lv0 = lv'" using run by (simp add: reload_all_def)
  show ?case
  proof (cases "loadable new_hook set_level result")
    case True
    then have c: "c = projr result" using snoc.prems by simp
    have "Inr (projr result) = result" using True by (cases result) (simp_all add: loadable_def)
    with True step all c show ?thesis by simp
  next
    case False
    then have "c = c1" using snoc.prems by (simp add: c1_def)
    with False step all IH show ?thesis by simp
  qed
qed

lemma live_of_start:
  assumes "hook_matches new_hook (cf_Webhook (fst (lv_active lv0))) (lv_hook lv0)"
    and "set_level (level_of (lv_active lv0)) = Inr (lo_level (lv_logger lv0))"
  shows "loadable new_hook set_level (Inr (lv_active lv0))"
    and "lv0 = live_of new_hook set_level lv0 (lv_active lv0)"
  using assms by (auto simp: loadable_def live_of_def hook_matches_def hook_of_def split: option.splits)

text \<open>C17. Reloading is last-one-wins and all or nothing.  After any sequence of reloads the
  program is as if the last acceptable file alone had been loaded at the start: its webhook
  section and level are in force, the client is the one made from it, the logger has its level,
  and everything else is as at the start.  A file is acceptable when it loads, a client can be made
  from its webhook section if that is enabled, and its level is known; the others are rejected with
  the reason logged, and change nothing.\<close>

theorem reloads_last_wins:
  assumes "hook_matches new_hook (cf_Webhook (fst (lv_active lv0))) (lv_hook lv0)"
    and "set_level (level_of (lv_active lv0)) = Inr (lo_level (lv_logger lv0))"
    and "reloadConfig new_hook set_level result (reload_all new_hook set_level results lv0) = (log, lv)"
  shows "reload_all new_hook set_level results lv0 = live_of new_hook set_level lv0
      (last (lv_active lv0 # map projr (filter (loadable new_hook set_level) results)))
    \<and> (if loadable new_hook set_level result then \<forall>err. ReloadRejected err \<notin> set log
       else (\<exists>err. log = [ReloadRejected err]) \<and> lv = reload_all new_hook set_level results lv0)"
proof -
  note start = live_of_start [where ?lv0.0 = lv0 and new_hook = new_hook and set_level = set_level, OF assms(1,2)]
  note all = reload_all_live_of [OF start refl, of results]
  from reload_live_of [OF conjunct1 [OF all] conjunct2 [OF all] assms(3)] all show ?thesis by (auto split: if_splits)
qed

text \<open>C9. After any sequence of reloads, rejected or applied, the running webhook client is the one
  made from the webhook section in force, or none if that section is disabled; the logger has the
  level in force and its sinks are those of the start; the configuration in force is that of the
  start, with the webhook section and the log level of one of the files loaded.  So the sections
  that need a restart are always compared with the configuration the program was started with.\<close>

theorem reloads_stay_consistent:
  assumes "hook_matches new_hook (cf_Webhook (fst (lv_active lv0))) (lv_hook lv0)"
    and "set_level (level_of (lv_active lv0)) = Inr (lo_level (lv_logger lv0))"
    and "lv = reload_all new_hook set_level results lv0"
  shows "hook_matches new_hook (cf_Webhook (fst (lv_active lv))) (lv_hook lv)
    \<and> set_level (level_of (lv_active lv)) = Inr (lo_level (lv_logger lv))
    \<and> lv_logger lv = (lv_logger lv0)\<lparr>lo_level := lo_level (lv_logger lv)\<rparr>
    \<and> (\<exists>next. (next = lv_active lv0 \<or> Inr next \<in> set results) \<and> lv_active lv = adopt (lv_active lv0) next)
    \<and> restartRequiredChanges (lv_active lv) c = restartRequiredChanges (lv_active lv0) c"
proof -
  have "live_inv new_hook set_level lv0 [] lv0"
    using assms(1,2) by (auto simp: live_inv_def)
  from live_inv_all [OF this, of results] assms(3)
  have "live_inv new_hook set_level lv0 results lv" by simp
  then show ?thesis by (auto simp: live_inv_def)
qed

definition example_live :: "string live" where
  "example_live = \<lparr>lv_active = (defaults, \<lambda>s. [True]), lv_hook = None,
     lv_logger = \<lparr>lo_console = False, lo_roller = None, lo_stdout = True, lo_level = ''info''\<rparr>\<rparr>"

definition example_debug :: "config \<times> nils" where
  "example_debug = (defaults\<lparr>cf_Log := (cf_Log defaults)\<lparr>lg_Level := ''debug'', lg_Format := ''x''\<rparr>\<rparr>, \<lambda>s. [True])"

theorem reloads_last_wins_witness:
  "lo_level (lv_logger (reload_all (\<lambda>cfg. Inl Canceled) Inr [Inr example_debug, Inl (Inl Canceled)] example_live)) = ''debug''
   \<and> lv_hook (reload_all (\<lambda>cfg. Inl Canceled) Inr [Inr example_debug, Inl (Inl Canceled)] example_live) = None"
proof -
  let ?hook = "\<lambda>cfg. Inl Canceled :: gerr + webhook_client" and ?rs = "[Inr example_debug, Inl (Inl Canceled)]"
  have hyps: "hook_matches ?hook (cf_Webhook (fst (lv_active example_live))) (lv_hook example_live)"
    "Inr (level_of (lv_active example_live)) = Inr (lo_level (lv_logger example_live))"
    by (simp_all add: example_live_def hook_matches_def defaults_def)
  have off: "\<not> wh_Enabled (cf_Webhook (fst example_debug))" by (simp add: example_debug_def defaults_def)
  then have "filter (loadable ?hook Inr) ?rs = [Inr example_debug]" by (simp add: loadable_def)
  with reloads_last_wins [where ?lv0.0 = example_live and set_level = Inr and result = "Inl (Inl Canceled)" and results = ?rs, OF hyps prod.collapse [symmetric]]
  have "reload_all ?hook Inr ?rs example_live = live_of ?hook Inr example_live example_debug" by simp
  then show ?thesis using off by (simp add: live_of_def hook_of_def example_debug_def)
qed

theorem reloads_stay_consistent_witness:
  "hook_matches (\<lambda>cfg. Inl Canceled) (cf_Webhook defaults)
      (lv_hook (reload_all (\<lambda>cfg. Inl Canceled) Inr [Inr example_debug, Inl (Inl Canceled)] example_live))
   \<and> level_of (lv_active (reload_all (\<lambda>cfg. Inl Canceled) Inr [Inr example_debug, Inl (Inl Canceled)] example_live)) = ''debug''
   \<and> lo_level (lv_logger (reload_all (\<lambda>cfg. Inl Canceled) Inr [Inr example_debug, Inl (Inl Canceled)] example_live)) = ''debug''"
proof -
  let ?lv = "reload_all (\<lambda>cfg. Inl Canceled) Inr [Inr example_debug, Inl (Inl Canceled)] example_live"
  have hyps: "hook_matches (\<lambda>cfg. Inl Canceled) (cf_Webhook (fst (lv_active example_live))) (lv_hook example_live)"
    "Inr (level_of (lv_active example_live)) = Inr (lo_level (lv_logger example_live))"
    by (simp_all add: example_live_def hook_matches_def defaults_def)
  have active: "lv_active ?lv = adopt (lv_active example_live) example_debug"
    by (simp add: reload_all_def reloadConfig_def next_hook_def SetLevel_def Let_def example_live_def example_debug_def
        webhook_equal_def defaults_def)
  have "cf_Webhook (fst (lv_active ?lv)) = cf_Webhook defaults" "level_of (lv_active ?lv) = ''debug''"
    unfolding active by (simp_all add: example_debug_def)
  with reloads_stay_consistent [where set_level = Inr and ?lv0.0 = example_live
      and results = "[Inr example_debug, Inl (Inl Canceled)]", OF hyps refl] show ?thesis by auto
qed

end
