(* ===== verification/Shutdown.thy ===== *)
theory Shutdown
  imports App
begin

text \<open>
  The graceful shut-down of the whole pipeline: the tailer closes and hands its buffered bodies
  over while the exporter still runs, then the exporter is told to stop.  What the exporter does
  meanwhile, whether its sends succeed, and what it does between the cancellation of its context
  and the moment it sees it are arbitrary; with sends that succeed, with one receive in \<open>acts\<close> for
  each record queued or still to come, and with an exporter that sees the cancellation at once,
  everything is sent.
\<close>

section \<open>A call of Enqueue returns\<close>

abbreviation receives :: "action list \<Rightarrow> nat" where
  "receives acts \<equiv> count_list acts AReceive"

text \<open>The queue of a running exporter that only one producer uses, with enough receives for
  its records and for \<open>m\<close> more.\<close>

definition ready :: "export_config \<Rightarrow> nat \<Rightarrow> action list \<times> 'n exporter \<Rightarrow> bool" where
  "ready cfg m aq \<longleftrightarrow> export_inv cfg (snd aq) \<and> xq_phase (snd aq) = Running
     \<and> list_all (\<lambda>a. a \<in> {AReceive, ATick}) (fst aq)
     \<and> length (xq_input (snd aq)) + m \<le> receives (fst aq)"

lemma flush_running:
  "\<forall>b n. fst (sd b n) = None \<Longrightarrow> stop_on (flush sd s) = snd (flush sd s) \<and> xq_phase (snd (flush sd s)) = xq_phase s"
  using flush_success [of sd s]
  by (auto simp: stop_on_def flush_def split: prod.splits option.splits)

lemma appendRecord_running:
  "\<forall>b n. fst (sd b n) = None \<Longrightarrow> xq_phase (snd (appendRecord cfg sd r s)) = xq_phase s"
  using flush_running [of sd s] flush_success [of sd s]
  by (auto simp: appendRecord_def add_to_batch_def split: prod.splits option.splits)

lemma receive_success:
  assumes "\<forall>b n. fst (sd b n) = None"
  shows "fst (receive cfg sd r rest s) = None \<and> xq_phase (snd (receive cfg sd r rest s)) = xq_phase s"
  using appendRecord_success [OF assms, of cfg r "take_input r rest s"]
    appendRecord_running [OF assms, of cfg r "take_input r rest s"] flush_running [OF assms] flush_success [OF assms]
  by (auto simp: receive_def take_input_def releaseQueueBytes_def split: prod.splits option.splits)

lemma act_ready:
  assumes "ready cfg m (a # acts, s)" "0 < ex_BatchSize cfg" "\<forall>b n. fst (sd b n) = None" "xq_input s \<noteq> []"
  shows "ready cfg m (acts, act cfg sd own a s)"
proof -
  have inv: "export_inv cfg (act cfg sd own a s)"
    using export_inv_reachable [OF act_steps [of cfg sd sd s own a] _ assms(2)] assms(1) by (simp add: ready_def)
  consider (ATick) "a = ATick" | (AReceive) "a = AReceive" using assms(1) by (auto simp: ready_def)
  then show ?thesis
  proof cases
    case ATick
    obtain err s' where fl: "flush sd s = (err, s')" by fastforce
    with assms(1) ATick inv flush_running [OF assms(3), of s] flush_fields [OF fl] show ?thesis
      by (auto simp: ready_def)
  next
    case AReceive
    obtain r rest where i: "xq_input s = r # rest" using assms(4) by (cases "xq_input s") auto
    obtain err s' where rc: "receive cfg sd r rest s = (err, s')" by fastforce
    with receive_success [OF assms(3), of cfg r rest s] have "err = None" "xq_phase s' = xq_phase s" by simp_all
    with assms(1) AReceive inv i rc receive_fields [OF rc] show ?thesis
      by (auto simp: ready_def stop_on_def)
  qed
qed

lemma ready_acts: "ready cfg m (a # acts, s) \<Longrightarrow> consumer a \<and> a \<noteq> ACancel"
  by (auto simp: ready_def)

lemma ready_queued:
  "ready cfg m (acts, s) \<Longrightarrow> xq_queued s = total_size (xq_input s) + total_size (xq_inflight s)"
  by (auto simp: ready_def export_inv_def queue_inv_def)

lemma wait_reserve_returns:
  assumes "ready cfg m (acts, s)" "0 < ex_BatchSize cfg" "\<forall>b n. fst (sd b n) = None"
    and "recordSize r \<le> ex_MaxQueueBytes cfg" "xq_inflight s = []"
  shows "\<exists>acts' s'. wait_reserve cfg sd acts r s = (None, acts', s') \<and> ready cfg m (acts', s')
    \<and> xq_inflight s' = [r]"
  using assms(1,5)
proof (induction acts arbitrary: s)
  case Nil
  then have "xq_input s = []" by (simp add: ready_def)
  with ready_queued [OF Nil(1)] Nil(2) assms(4) obtain s' where s': "reserveQueueBytes cfg r s = Some s'"
    by (simp add: reserveQueueBytes_def)
  with Nil export_inv_reserve [OF _ s'] wait_reserve_room [OF s', of sd "[]"] show ?case
    by (auto simp: ready_def reserveQueueBytes_def split: if_splits)
next
  case (Cons a acts)
  show ?case
  proof (cases "reserveQueueBytes cfg r s")
    case (Some s')
    with Cons.prems export_inv_reserve [OF _ Some] wait_reserve_room [OF Some, of sd "a # acts"] show ?thesis
      by (auto simp: ready_def reserveQueueBytes_def split: if_splits)
  next
    case None
    with ready_queued [OF Cons.prems(1)] Cons.prems(2) assms(4) have "xq_input s \<noteq> []"
      by (auto simp: reserveQueueBytes_def)
    note a = ready_acts [OF Cons.prems(1)]
    have "xq_inflight (act cfg sd [] a s) = []" using act_consumer [of a] a Cons.prems(2) by metis
    from Cons.IH [OF act_ready [OF Cons.prems(1) assms(2,3) \<open>xq_input s \<noteq> []\<close>] this] a show ?thesis
      by (simp add: wait_reserve_full [OF None])
  qed
qed

lemma wait_push_returns:
  assumes "ready cfg (Suc m) (acts, s)" "0 < ex_BatchSize cfg" "\<forall>b n. fst (sd b n) = None"
    and "0 < ex_QueueSize cfg" "xq_inflight s = [r]"
  shows "\<exists>acts' s'. wait_push cfg sd acts r s = (None, acts', s') \<and> ready cfg m (acts', s')
    \<and> xq_inflight s' = []"
  using assms(1,5)
proof (induction acts arbitrary: s)
  case Nil
  then show ?case by (simp add: ready_def)
next
  case (Cons a acts)
  note a = ready_acts [OF Cons.prems(1)]
  show ?case
  proof (cases "push cfg r s")
    case (Some s')
    with Cons.prems a export_inv_push [OF _ _ Some] wait_push_room [OF Some, of "a # acts" sd] show ?thesis
      by (auto simp: ready_def push_def split: if_splits)
  next
    case None
    with assms(4) have "xq_input s \<noteq> []" by (auto simp: push_def split: if_splits)
    have "xq_inflight (act cfg sd [r] a s) = [r]" using act_consumer [of a] a Cons.prems(2) by metis
    from Cons.IH [OF act_ready [OF Cons.prems(1) assms(2,3) \<open>xq_input s \<noteq> []\<close>] this] a show ?thesis
      by (simp add: wait_push_full [OF None])
  qed
qed

abbreviation fits :: "export_config \<Rightarrow> log_record \<Rightarrow> bool" where
  "fits cfg r \<equiv> recordSize r \<le> ex_MaxQueueBytes cfg"

text \<open>With the receives it needs, a call of \<open>Enqueue\<close> returns nil unless the record is larger
  than the whole queue may be.\<close>

lemma Enqueue_ready:
  assumes "ready cfg (Suc m) aq" "0 < ex_BatchSize cfg" "\<forall>b n. fst (sd b n) = None"
    and "0 < ex_QueueSize cfg" "xq_inflight (snd aq) = []"
    and "Enqueue cfg sd r aq = (err, aq')"
  shows "(err = None \<longleftrightarrow> fits cfg r) \<and> ready cfg m aq' \<and> xq_inflight (snd aq') = []
    \<and> xq_accepted (snd aq') = xq_accepted (snd aq) @ (if fits cfg r then [r] else [])"
proof (cases "fits cfg r")
  case False
  with assms(1,5,6) show ?thesis by (auto simp: Enqueue_def ready_def)
next
  case True
  obtain acts s acts' s' where aq: "aq = (acts, s)" "aq' = (acts', s')" by fastforce
  obtain acts1 s1 where 1: "wait_reserve cfg sd acts r s = (None, acts1, s1)" "ready cfg (Suc m) (acts1, s1)"
    "xq_inflight s1 = [r]"
    using wait_reserve_returns [OF assms(1) [unfolded aq(1)] assms(2,3) True] assms(5) aq(1) by auto
  obtain acts2 s2 where 2: "wait_push cfg sd acts1 r s1 = (None, acts2, s2)" "ready cfg m (acts2, s2)"
    "xq_inflight s2 = []"
    using wait_push_returns [OF 1(2) assms(2-4) 1(3)] by blast
  from 1 2 True aq assms(6) have e: "err = None" "acts2 = acts'" "s2 = s'" by (simp_all add: Enqueue_def)
  have "list_all consumer acts" using assms(1) aq(1) by (auto simp: ready_def elim: list.pred_mono_strong)
  with e 2 True aq assms(6) Enqueue_alone [of cfg sd r acts s err acts' s' sd] show ?thesis by simp
qed

section \<open>The tailer hands its bodies over\<close>

definition passed :: "(bool \<times> log_record) list \<Rightarrow> log_record list" where
  "passed ps = map snd (filter fst ps)"

lemma submit_queue:
  "ou_queue (snd (submit cfg sd hook True r x)) = snd (Enqueue cfg sd r (ou_queue x))"
  by (auto simp: submit_def submitRecord_def hook_output_def export_output_def Let_def
      split: option.split prod.split)

text \<open>The tailer's emissions over this limiter.\<close>

abbreviation shutdown_env where
  "shutdown_env cfg sd now fcfg ops compile parse_time hook \<equiv>
     pipeline_env fcfg ops now compile parse_time (submit cfg sd hook True)"

text \<open>What the shut-down relies on when nothing is to be lost: the sends succeed.\<close>

definition delivers :: "export_config \<Rightarrow> 'n sender \<Rightarrow> bool" where
  "delivers cfg sd \<longleftrightarrow> 0 < ex_BatchSize cfg \<and> 0 < ex_QueueSize cfg \<and> (\<forall>b n. fst (sd b n) = None)"

text \<open>The clock does not touch the queue.\<close>

definition clock_ok :: "(('h, 'n) outputs \<Rightarrow> time \<times> ('h, 'n) outputs) \<Rightarrow> bool" where
  "clock_ok now \<longleftrightarrow> (\<forall>x. ou_queue (snd (now x)) = ou_queue x)"

text \<open>The interface between the emissions and the queue: an invariant of the queue and of the
  schedule that has budget for \<open>m\<close> more calls of \<open>Enqueue\<close>, and what one call adds to the
  records accepted.\<close>

locale handing =
  fixes cfg :: export_config and sd :: "'n sender"
    and budget :: "nat \<Rightarrow> action list \<times> 'n exporter \<Rightarrow> bool"
    and takes :: "log_record \<Rightarrow> log_record list \<Rightarrow> bool"
  assumes enqueue: "budget (Suc m) aq \<Longrightarrow> Enqueue cfg sd r aq = (err, aq') \<Longrightarrow>
      budget m aq' \<and> (\<exists>t. takes r t \<and> xq_accepted (snd aq') = xq_accepted (snd aq) @ t)"
    and less: "budget (Suc m) aq \<Longrightarrow> budget m aq"
begin

definition world_ready :: "nat \<Rightarrow> ('b, ('h, 'n) outputs) flow \<Rightarrow> bool" where
  "world_ready m w \<longleftrightarrow> budget m (ou_queue (fl_next w))"

text \<open>From \<open>w\<close> to \<open>w'\<close> the limiter took some records, and the exporter took what \<open>takes\<close> says
  of those that were passed on.\<close>

definition handed_over :: "('b, ('h, 'n) outputs) flow \<Rightarrow> ('b, ('h, 'n) outputs) flow \<Rightarrow> bool" where
  "handed_over w w' \<longleftrightarrow> (\<exists>ps ts. fl_log w' = fl_log w @ ps \<and> list_all2 takes (passed ps) ts
     \<and> xq_accepted (snd (ou_queue (fl_next w'))) = xq_accepted (snd (ou_queue (fl_next w))) @ concat ts)"

lemma handed_over_same:
  "fl_log w' = fl_log w \<Longrightarrow> ou_queue (fl_next w') = ou_queue (fl_next w) \<Longrightarrow> handed_over w w'"
  unfolding handed_over_def by (intro exI [of _ "[]"]) (simp add: passed_def)

lemma handed_over_trans:
  assumes "handed_over u v" "handed_over v w"
  shows "handed_over u w"
proof -
  obtain ps ts ps' ts' where "fl_log v = fl_log u @ ps" "list_all2 takes (passed ps) ts"
    "xq_accepted (snd (ou_queue (fl_next v))) = xq_accepted (snd (ou_queue (fl_next u))) @ concat ts"
    "fl_log w = fl_log v @ ps'" "list_all2 takes (passed ps') ts'"
    "xq_accepted (snd (ou_queue (fl_next w))) = xq_accepted (snd (ou_queue (fl_next v))) @ concat ts'"
    using assms unfolding handed_over_def by blast
  then show ?thesis unfolding handed_over_def
    by (intro exI [of _ "ps @ ps'"] exI [of _ "ts @ ts'"]) (simp add: passed_def list_all2_appendI)
qed

lemma world_ready_less: "world_ready (Suc m) w \<Longrightarrow> world_ready m w"
  unfolding world_ready_def by (rule less)

lemma forward_ready:
  assumes "world_ready (Suc m) w" "forward (submit cfg sd hook True) r w = (err, w')"
  shows "err = None \<and> world_ready m w' \<and> handed_over w w'"
proof -
  obtain err1 aq' where en: "Enqueue cfg sd r (ou_queue (fl_next w)) = (err1, aq')" by (rule prod.exhaust)
  obtain t where E: "budget m aq'" "takes r t"
    "xq_accepted (snd aq') = xq_accepted (snd (ou_queue (fl_next w))) @ t"
    using enqueue [OF assms(1) [unfolded world_ready_def] en] by blast
  have w': "err = None" "fl_log w' = fl_log w @ [(True, r)]" "ou_queue (fl_next w') = aq'"
    using assms(2) submit_nil [of cfg sd hook True r "fl_next w"] submit_queue [of cfg sd hook r "fl_next w"] en
    by (auto simp: forward_def split: prod.splits)
  have "handed_over w w'" unfolding handed_over_def
    using E w' by (intro exI [of _ "[(True, r)]"] exI [of _ "[t]"]) (simp add: passed_def)
  with E w' show ?thesis by (simp add: world_ready_def)
qed

lemma world_ready_bucket [simp]: "world_ready m (w\<lparr>fl_bucket := b\<rparr>) = world_ready m w"
  by (simp add: world_ready_def)

lemma handed_over_bucket [simp]: "handed_over (w\<lparr>fl_bucket := b\<rparr>) w' = handed_over w w'"
  by (simp add: handed_over_def)

lemma Submit_ready:
  assumes clock: "clock_ok now" and w: "world_ready (Suc m) w"
    and S: "Submit fcfg ops now (submit cfg sd hook True) r w = (err, w')"
  shows "world_ready m w' \<and> handed_over w w'
    \<and> (err \<noteq> None \<longrightarrow> fst (bo_wait ops (fl_bucket w)) \<noteq> None)"
proof -
  have fw: ?thesis if "forward (submit cfg sd hook True) r (w\<lparr>fl_bucket := b\<rparr>) = (err, w')" for b
    using forward_ready [OF _ that, of m] w by simp
  consider (off) "\<not> fc_Enabled fcfg" | (refuse) b where "fc_Enabled fcfg" "fc_Mode fcfg = ''drop''"
      "bo_allow ops (fl_bucket w) = (False, b)"
    | (allow) b where "fc_Enabled fcfg" "fc_Mode fcfg = ''drop''" "bo_allow ops (fl_bucket w) = (True, b)"
    | (fail) x b where "fc_Enabled fcfg" "fc_Mode fcfg \<noteq> ''drop''" "bo_wait ops (fl_bucket w) = (Some x, b)"
    | (wait) b where "fc_Enabled fcfg" "fc_Mode fcfg \<noteq> ''drop''" "bo_wait ops (fl_bucket w) = (None, b)"
    by (metis surj_pair not_None_eq)
  then show ?thesis
  proof cases
    case off
    then show ?thesis using S fw [of "fl_bucket w"] by (simp add: Submit_def)
  next
    case refuse
    obtain t x where n: "now (fl_next w) = (t, x)" by fastforce
    with clock have q: "ou_queue x = ou_queue (fl_next w)" unfolding clock_ok_def by (metis snd_conv)
    with refuse S n have "ou_queue (fl_next w') = ou_queue (fl_next w)" "err = None" "fl_log w' = fl_log w @ [(False, r)]"
      by (auto simp: Submit_def Let_def)
    moreover from this have "handed_over w w'" unfolding handed_over_def
      by (intro exI [of _ "[(False, r)]"] exI [of _ "[]"]) (simp add: passed_def)
    ultimately show ?thesis using world_ready_less [OF w] by (simp add: world_ready_def)
  next
    case allow
    then show ?thesis using S fw by (simp add: Submit_def)
  next
    case fail
    with S have "w' = w\<lparr>fl_bucket := b\<rparr>" by (simp add: Submit_def)
    with fail world_ready_less [OF w] show ?thesis by (simp add: handed_over_same)
  next
    case wait
    then show ?thesis using S fw by (simp add: Submit_def)
  qed
qed

lemma env_now_ready:
  assumes "clock_ok now" "env_now (shutdown_env cfg sd now fcfg ops compile parse_time hook) w = (t, w')"
  shows "world_ready m w' = world_ready m w" "handed_over w w'"
proof -
  have "ou_queue (fl_next w') = ou_queue (fl_next w)" "fl_log w' = fl_log w"
    using assms unfolding clock_ok_def by (auto simp: pipeline_env_def split: prod.splits) (metis snd_conv)+
  then show "world_ready m w' = world_ready m w" "handed_over w w'"
    by (simp_all add: world_ready_def handed_over_same)
qed

lemma emitPrepared_ready:
  assumes clock: "clock_ok now" and w: "world_ready (Suc m) w" and waits: "\<forall>b. fst (bo_wait ops b) = None"
    and em: "emitPrepared (shutdown_env cfg sd now fcfg ops compile parse_time hook) r w = (err, w')"
  shows "err = None \<and> world_ready m w' \<and> handed_over w w'"
proof (cases "Dropped r")
  case True
  with em w world_ready_less [OF w] show ?thesis by (simp add: emitPrepared_def handed_over_same)
next
  case False
  let ?e = "shutdown_env cfg sd now fcfg ops compile parse_time hook"
  obtain ts w1 where 1: "(if is_zero_time (Timestamp r) then env_now ?e w else (Timestamp r, w)) = (ts, w1)"
    by fastforce
  obtain obs w2 where 2: "env_now ?e w1 = (obs, w2)" by fastforce
  have r1: "world_ready (Suc m) w1" "handed_over w w1"
    using 1 w env_now_ready(1) [OF clock, of fcfg ops compile parse_time hook w ts w1 "Suc m"]
      env_now_ready(2) [OF clock, of fcfg ops compile parse_time hook w ts w1]
    by (auto simp: handed_over_same split: if_splits)
  from env_now_ready(1) [OF clock 2, of "Suc m"] env_now_ready(2) [OF clock 2] r1 have r2: "world_ready (Suc m) w2" "handed_over w w2"
    by (blast intro: handed_over_trans)+
  from False 1 2 em have "env_emit ?e (r\<lparr>Timestamp := ts, ObservedTimestamp := obs\<rparr>) w2 = (err, w')"
    by (simp add: emitPrepared_def)
  then have "Submit fcfg ops now (submit cfg sd hook True)
      (r\<lparr>Timestamp := ts, ObservedTimestamp := obs\<rparr>) w2 = (err, w')"
    by (simp add: pipeline_env_def)
  from Submit_ready [OF clock r2(1) this] r2(2) waits show ?thesis by (metis handed_over_trans)
qed

lemma emit_all_ready:
  assumes clock: "clock_ok now" and "world_ready (length rs + m) w" "\<forall>b. fst (bo_wait ops b) = None"
    and "emit_all (shutdown_env cfg sd now fcfg ops compile parse_time hook) rs w = (err, w')"
  shows "err = None \<and> world_ready m w' \<and> handed_over w w'"
  using assms(2,4)
proof (induction rs arbitrary: w)
  case (Cons r rs)
  obtain err1 w1 where em: "emitPrepared (shutdown_env cfg sd now fcfg ops compile parse_time hook) r w = (err1, w1)"
    by fastforce
  note 1 = emitPrepared_ready [OF clock _ assms(3) em, of "length rs + m"]
  with Cons.prems em Cons.IH [of w1] show ?case by (auto intro: handed_over_trans)
qed (simp add: handed_over_same)


text \<open>The close, over this interface.\<close>

lemma Close_ready:
  assumes clock: "clock_ok now" and waits: "\<forall>b. fst (bo_wait ops b) = None"
    and bs: "bs = filter (\<lambda>kp. pd_body (snd kp) \<noteq> []) (tl_pending s)"
    and w: "world_ready (length bs) (tl_world s)"
    and cl: "Close (shutdown_env cfg sd now fcfg ops compile parse_time hook) marshal io (s, d) = (err, s', d')"
  shows "tl_pending s' = [] \<and> world_ready 0 (tl_world s') \<and> handed_over (tl_world s) (tl_world s')
    \<and> (\<exists>out. submitted (tl_world s') = submitted (tl_world s) @ out
        \<and> map Body out = map (pd_body \<circ> snd) (filter kept_entry bs))
    \<and> Save marshal io (tl_state s, d) = (err, tl_state s', d')"
proof -
  let ?e = "shutdown_env cfg sd now fcfg ops compile parse_time hook"
  obtain rs where sel: "close_select (tl_pending s) = Inr rs"
      "map (\<lambda>r. (Body r, \<not> Dropped r)) rs = map (\<lambda>kp. (pd_body (snd kp), kept_entry kp)) bs"
    using close_select_bodies [of "tl_pending s", folded bs] by (elim exE conjE) (rule that)
  obtain err1 w' where em: "emit_all ?e rs (tl_world s) = (err1, w')" by (rule prod.exhaust)
  have "world_ready (length rs + 0) (tl_world s)" using w arg_cong [OF sel(2), of length] by simp
  note ready = emit_all_ready [OF clock this waits em]
  obtain n out where n: "n \<le> length bs" "(err1 = None) = (n = length bs)"
    and out: "submitted w' = submitted (tl_world s) @ out"
      "map Body out = map (pd_body \<circ> snd) (filter kept_entry (take n bs))"
    using pipe.emit_all_bodies [OF sel(1) em, folded bs] by (elim exE conjE) (rule that)
  obtain err2 st d2 where sv: "Save marshal io (tl_state s, d) = (err2, st, d2)" by (metis prod_cases3)
  with cl sel(1) em ready have "err = err2" "d' = d2" "s' = s\<lparr>tl_pending := [], tl_world := w', tl_state := st\<rparr>"
    by (simp_all add: Close_def)
  with ready n out sv show ?thesis by auto
qed

end

section \<open>Any exporter, and one that keeps up\<close>

text \<open>A queue that only the tailer uses, with an exporter that has not been told to stop: it runs,
  or a failed send has ended it.\<close>

definition untold :: "'n exporter \<Rightarrow> bool" where
  "untold s \<longleftrightarrow> (case xq_phase s of Running \<Rightarrow> True | Draining \<Rightarrow> False | Stopped e \<Rightarrow> e \<noteq> None)"

definition any_queue :: "export_config \<Rightarrow> action list \<times> 'n exporter \<Rightarrow> bool" where
  "any_queue cfg aq \<longleftrightarrow> 0 < ex_BatchSize cfg \<and> export_inv cfg (snd aq) \<and> untold (snd aq) \<and> list_all consumer (fst aq)"

text \<open>One that keeps up: it runs, its sends succeed, and it has the receives it needs.\<close>

definition prompt_queue :: "export_config \<Rightarrow> 'n sender \<Rightarrow> nat \<Rightarrow> action list \<times> 'n exporter \<Rightarrow> bool" where
  "prompt_queue cfg sd m aq \<longleftrightarrow> delivers cfg sd \<and> ready cfg m aq \<and> xq_inflight (snd aq) = []"

lemma flush_phase: "xq_phase (snd (flush sd s)) = xq_phase s"
  by (auto simp: flush_def split: prod.split option.split)

lemma appendRecord_phase: "xq_phase (snd (appendRecord cfg sd r s)) = xq_phase s"
  using flush_phase [of sd s] by (auto simp: appendRecord_def add_to_batch_def split: prod.split option.split)

lemma receive_phase: "xq_phase (snd (receive cfg sd r rest s)) = xq_phase s"
  using appendRecord_phase [of cfg sd r "take_input r rest s"]
  by (auto simp: receive_def take_input_def releaseQueueBytes_def flush_phase split: prod.split option.split)

lemma untold_stop_on: "xq_phase (snd es) = Running \<Longrightarrow> untold (stop_on es)"
  by (cases es) (auto simp: stop_on_def untold_def split: option.split)

lemma untold_act: "untold s \<Longrightarrow> consumer a \<Longrightarrow> untold (act cfg sd own a s)"
  using untold_stop_on [of "flush sd s"] untold_stop_on [of "receive cfg sd _ _ s"]
  by (auto simp: flush_phase receive_phase split: list.split)

lemma wait_reserve_untold:
  "wait_reserve cfg sd acts r s = (err, acts', s') \<Longrightarrow> untold s \<Longrightarrow> list_all consumer acts \<Longrightarrow> untold s'"
proof (induction acts arbitrary: s)
  case Nil
  then show ?case
    by (cases "reserveQueueBytes cfg r s")
       (auto simp: wait_reserve_room wait_reserve_full reserveQueueBytes_def untold_def split: if_splits)
next
  case (Cons a acts)
  then have "untold (act cfg sd [] a s)" by (intro untold_act) simp_all
  with Cons show ?case
    by (cases "reserveQueueBytes cfg r s")
       (auto simp: wait_reserve_room wait_reserve_full reserveQueueBytes_def untold_def split: if_splits)
qed

lemma wait_push_untold:
  "wait_push cfg sd acts r s = (err, acts', s') \<Longrightarrow> untold s \<Longrightarrow> list_all consumer acts \<Longrightarrow> untold s'"
proof (induction acts arbitrary: s)
  case Nil
  then show ?case
    by (cases "push cfg r s")
       (auto simp: wait_push_room wait_push_full push_def give_up_def releaseQueueBytes_def untold_def split: if_splits)
next
  case (Cons a acts)
  then have u: "untold (act cfg sd [r] a s)" by (intro untold_act) simp_all
  show ?case
  proof (cases "a = ACancel")
    case True
    with Cons.prems have "s' = give_up r s" by (simp add: wait_push_cancelled)
    with Cons.prems show ?thesis by (simp add: give_up_def releaseQueueBytes_def untold_def)
  next
    case False
    with Cons u show ?thesis
      by (cases "push cfg r s")
         (auto simp: wait_push_room wait_push_full push_def untold_def split: if_splits)
  qed
qed

lemma Enqueue_untold:
  assumes "Enqueue cfg sd r (acts, s) = (err, acts', s')" "untold s" "list_all consumer acts"
  shows "untold s'"
proof (cases "fits cfg r")
  case True
  obtain err1 acts1 s1 where w: "wait_reserve cfg sd acts r s = (err1, acts1, s1)" by (metis prod_cases3)
  have u: "untold s1" by (rule wait_reserve_untold [OF w assms(2,3)])
  have "list_all consumer acts1"
    using wait_reserve_steps [OF w, of sd] True assms(3) by auto
  with w u assms(1) True wait_push_untold [of cfg sd acts1 r s1 err acts' s'] show ?thesis
    by (cases err1) (simp_all add: Enqueue_def)
qed (use assms in \<open>simp add: Enqueue_def\<close>)

lemma any_queue_enqueue:
  assumes "any_queue cfg aq" "Enqueue cfg sd r aq = (err, aq')"
  shows "any_queue cfg aq' \<and> (\<exists>t. (t = [] \<or> t = [r]) \<and> xq_accepted (snd aq') = xq_accepted (snd aq) @ t)"
proof -
  obtain acts s acts' s' where aq: "aq = (acts, s)" "aq' = (acts', s')" by fastforce
  note e = Enqueue_alone [OF assms(2) [unfolded aq], of sd]
  from assms(1) aq have q: "export_inv cfg s" "untold s" "list_all consumer acts" and pos: "0 < ex_BatchSize cfg" by (simp_all add: any_queue_def)
  with e have s': "(export_step cfg sd sd)\<^sup>*\<^sup>* s s'" "list_all consumer acts'"
    "xq_accepted s' = xq_accepted s @ (if err = None then [r] else [])" by blast+
  from export_inv_reachable [OF s'(1) q(1) pos] Enqueue_untold [OF assms(2) [unfolded aq] q(2,3)] s'(2,3) aq pos
  show ?thesis by (auto simp: any_queue_def)
qed

interpretation any: handing cfg sd "\<lambda>m. any_queue cfg" "\<lambda>r t. t = [] \<or> t = [r]" for cfg sd
  by unfold_locales (blast dest: any_queue_enqueue, assumption)

interpretation prompt: handing cfg sd "prompt_queue cfg sd" "\<lambda>r t. t = (if fits cfg r then [r] else [])" for cfg sd
proof unfold_locales
  fix m aq r err aq'
  assume "prompt_queue cfg sd (Suc m) aq" "Enqueue cfg sd r aq = (err, aq')"
  with Enqueue_ready [of cfg m aq sd r err aq'] show "prompt_queue cfg sd m aq'
      \<and> (\<exists>t. t = (if fits cfg r then [r] else []) \<and> xq_accepted (snd aq') = xq_accepted (snd aq) @ t)"
    by (simp add: prompt_queue_def delivers_def)
qed (simp add: prompt_queue_def ready_def)

lemma takes_any: "list_all2 (\<lambda>r t. t = [] \<or> t = [r]) rs ts \<Longrightarrow> subseq (concat ts) rs"
  by (induction rs ts rule: list_all2_induct) auto

lemma takes_fits: "list_all2 (\<lambda>r t. t = (if P r then [r] else [])) rs ts \<Longrightarrow> concat ts = filter P rs"
  by (induction rs ts rule: list_all2_induct) auto

section \<open>The exporter is told to stop\<close>

lemma drain_all_inv:
  assumes "queue_inv cfg [] s" "0 < ex_BatchSize cfg" "xq_lost s = []"
    and "xq_input s = input" "drain_all cfg sd input s = (err, s')"
  shows "queue_inv cfg (xq_lost s') s' \<and> xq_accepted s' = xq_accepted s
    \<and> (err = None \<longrightarrow> xq_lost s' = [] \<and> xq_batch s' = [] \<and> xq_input s' = [])"
  using assms(1,3-5)
proof (induction input arbitrary: s)
  case Nil
  then have fl: "flush sd s = (err, s')" by simp
  from flush_inv [OF Nil(1) assms(2) fl] Nil show ?case by auto
next
  case (Cons r rest)
  obtain e1 s1 where ap: "appendRecord cfg sd r (take_input r rest s) = (e1, s1)" by fastforce
  have t: "xq_lost (take_input r rest s) = []" "xq_input (take_input r rest s) = rest"
    "xq_accepted (take_input r rest s) = xq_accepted s"
    using Cons by (simp_all add: take_input_def releaseQueueBytes_def)
  note a = appendRecord_inv [OF queue_inv_take [OF Cons.prems(1,3)] assms(2) t(1) ap]
  show ?case
  proof (cases e1)
    case None
    with a t have "queue_inv cfg [] s1 \<and> xq_lost s1 = [] \<and> xq_input s1 = rest \<and> xq_accepted s1 = xq_accepted s"
      by metis
    with Cons.IH [of s1] Cons.prems(4) ap None show ?thesis by simp
  next
    case (Some e)
    with Cons.prems(4) ap have "err = Some e" "s' = s1" by simp_all
    with a t show ?thesis by simp
  qed
qed

lemma late_inv:
  assumes "export_inv cfg q" "untold q" "0 < ex_BatchSize cfg" "list_all consumer late"
  shows "export_inv cfg (fold (act cfg sd []) late q) \<and> untold (fold (act cfg sd []) late q)
    \<and> xq_accepted (fold (act cfg sd []) late q) = xq_accepted q"
  using assms(1,2,4)
proof (induction late arbitrary: q)
  case (Cons a late)
  have "export_inv cfg (act cfg sd [] a q)"
    using export_inv_reachable [OF act_steps [of cfg sd sd q "[]" a] Cons.prems(1) assms(3)] .
  moreover have "untold (act cfg sd [] a q)" using Cons.prems by (intro untold_act) simp_all
  ultimately show ?case using Cons act_consumer [of a cfg sd "[]" q] by simp
qed simp

text \<open>However it ends, the records accepted are those sent followed by those left behind; nothing is
  left behind if \<open>Run\<close> returned nil.\<close>

lemma stop_exporter_ends:
  assumes "export_inv cfg q" "untold q" "0 < ex_BatchSize cfg" "list_all consumer late"
    and "q' = stop_exporter cfg late_sd last_sd late q"
  shows "\<exists>e. xq_phase q' = Stopped e \<and> xq_accepted q' = xq_accepted q
    \<and> xq_accepted q' = concat (xq_sent q') @ xq_batch q' @ xq_lost q' @ xq_input q'
    \<and> (e = None \<longrightarrow> xq_batch q' = [] \<and> xq_lost q' = [] \<and> xq_input q' = [])"
proof -
  let ?q1 = "fold (act cfg late_sd []) late q"
  note q1 = late_inv [OF assms(1-4), of late_sd]
  show ?thesis
  proof (cases "xq_phase ?q1 = Running")
    case True
    let ?q2 = "?q1\<lparr>xq_phase := Draining\<rparr>"
    obtain err q3 where dr: "drain_all cfg last_sd (xq_input ?q2) ?q2 = (err, q3)" by fastforce
    have "queue_inv cfg [] ?q2" "xq_lost ?q2 = []"
      using export_inv_running [of cfg ?q1] q1 True by (simp_all add: queue_inv_fields)
    note d = drain_all_inv [OF this(1) assms(3) this(2) refl dr]
    have "xq_accepted q3 = xq_accepted q" using d q1 by simp
    moreover have "xq_accepted q3 = concat (xq_sent q3) @ xq_batch q3 @ xq_lost q3 @ xq_input q3"
      using d by (simp add: queue_inv_def)
    moreover have "q' = q3\<lparr>xq_phase := Stopped err\<rparr>"
      using dr True assms(5) by (simp add: stop_exporter_def shutdown_run_def)
    ultimately show ?thesis using d by simp
  next
    case False
    with q1 obtain e where "xq_phase ?q1 = Stopped (Some e)" by (auto simp: untold_def split: run_phase.splits)
    moreover have "q' = ?q1" using False assms(5) by (simp add: stop_exporter_def)
    moreover have "xq_accepted ?q1 = concat (xq_sent ?q1) @ xq_batch ?q1 @ xq_lost ?q1 @ xq_input ?q1"
      using q1 by (simp add: export_inv_def queue_inv_def)
    ultimately show ?thesis using q1 by simp
  qed
qed

text \<open>An exporter that sees the cancellation at once, with sends that succeed, sends everything.\<close>

lemma stop_exporter_sent:
  assumes "ready cfg m (acts, q)" "0 < ex_BatchSize cfg" "\<forall>b n. fst (last_sd b n) = None"
  shows "xq_phase (stop_exporter cfg late_sd last_sd [] q) = Stopped None"
proof -
  let ?q = "q\<lparr>xq_phase := Draining\<rparr>"
  have q: "queue_inv cfg [] q" "xq_lost q = []" "xq_phase q = Running"
    using assms(1) export_inv_running [of cfg q] by (simp_all add: ready_def)
  obtain err q' where dr: "drain_all cfg last_sd (xq_input ?q) ?q = (err, q')" by fastforce
  have "queue_inv cfg [] ?q" "xq_lost ?q = []" using q by (simp_all add: queue_inv_fields)
  from drain_all_sent [OF this(1) assms(2) this(2) assms(3) refl dr] dr q(3) show ?thesis
    by (simp add: stop_exporter_def shutdown_run_def)
qed

text \<open>A flush that is under way when the context is cancelled, or that the select still chooses,
  fails for that: \<open>Run\<close> ends, and the batch and the queue are never sent, however well the
  network works.\<close>

lemma stop_during_flush:
  assumes "xq_phase q = Running" "xq_batch q \<noteq> []" "late_sd (xq_batch q) (xq_net q) = (Some Canceled, n)"
  shows "stop_exporter cfg late_sd last_sd (ATick # late) q
    = fold (act cfg late_sd []) late (q\<lparr>xq_net := n, xq_phase := Stopped (Some Canceled)\<rparr>)"
    "list_all consumer late \<Longrightarrow> xq_sent (stop_exporter cfg late_sd last_sd (ATick # late) q) = xq_sent q"
proof -
  let ?s = "q\<lparr>xq_net := n, xq_phase := Stopped (Some Canceled)\<rparr>"
  have tick: "act cfg late_sd [] ATick q = ?s" using assms by (simp add: flush_def stop_on_def)
  have same: "xq_phase (fold (act cfg late_sd []) as ?s) = Stopped (Some Canceled)
      \<and> xq_sent (fold (act cfg late_sd []) as ?s) = xq_sent q" for as
  proof -
    have "(export_step cfg late_sd late_sd)\<^sup>*\<^sup>* u (fold (act cfg late_sd []) as u)" for u
      by (induction as arbitrary: u) (auto intro: rtranclp_trans [OF act_steps])
    from stopped_reachable [OF this] show ?thesis by simp
  qed
  show "stop_exporter cfg late_sd last_sd (ATick # late) q = fold (act cfg late_sd []) late ?s"
    using same [of late] by (simp add: stop_exporter_def tick del: act.simps)
  then show "list_all consumer late \<Longrightarrow> xq_sent (stop_exporter cfg late_sd last_sd (ATick # late) q) = xq_sent q"
    using same [of late] by (simp del: act.simps)
qed


section \<open>Property\<close>


definition example_sender :: "unit sender" where "example_sender b n = (None, n)"

definition cancelled_sender :: "unit sender" where "cancelled_sender b n = (Some Canceled, n)"

definition example_clock :: "(unit, unit) outputs \<Rightarrow> time \<times> (unit, unit) outputs" where
  "example_clock x = (7, x)"

definition example_world :: "(unit, (unit, unit) outputs) flow" where
  "example_world = new_limiter () 0 \<lparr>ou_hook = (), ou_queue = ([ATick, AReceive], new_exporter ())\<rparr>"

definition example_closing :: "(unit, (unit, unit) outputs) flow tailer" where
  "example_closing = \<lparr>tl_state = example_store, tl_pending = [(''k'', example_pending)], tl_next = 0,
     tl_world = example_world\<rparr>"

definition example_shutdown :: "action list \<Rightarrow> gerr option \<times> (unit, (unit, unit) outputs) flow tailer \<times> disk" where
  "example_shutdown late = shutdown_app (shutdown_env example_export example_sender example_clock example_flow
     example_bucket example_compile example_parse None) (\<lambda>ps. Inr ''{}'') good_io
     (Some (example_export, cancelled_sender, example_sender, late)) (Some Canceled) (example_closing, empty_disk)"


end
