(* ===== verification/Lifetime.thy ===== *)
theory Lifetime
  imports Pipeline "HOL-Library.Sublist"
begin

text \<open>
  The whole life of one file that only grows, over rounds of reading, saves that interleave with
  them and may stop at any file operation, crashes and restarts.  The steps are the operations of
  the components: \<open>read\<close>, \<open>save_begin\<close>, \<open>save_files\<close>, \<open>save_commit\<close>, \<open>Load\<close>.
\<close>

section \<open>The system\<close>

text \<open>\<open>lf_exact\<close> is a history: no restart so far, and nothing else was handed over.\<close>

record 'w life =
  lf_tailer :: "'w tailer"
  lf_disk :: disk
  lf_saving :: "(string \<times> 64 word) option"
  lf_data :: string
  lf_exact :: bool

definition first_start :: "string \<Rightarrow> string \<Rightarrow> 'w \<Rightarrow> 'w life" where
  "first_start path data w = \<lparr>
     lf_tailer = \<lparr>tl_state = \<lparr>st_path = path, st_positions = [], st_dirty = False, st_generation = 0\<rparr>,
       tl_pending = [], tl_next = 0, tl_world = w\<rparr>,
     lf_disk = empty_disk, lf_saving = None, lf_data = data, lf_exact = True\<rparr>"

text \<open>The disk after a crash: the process alone dies and the files stay, or the system does, and the
  state file is one of those the crash may leave.\<close>

inductive crashed :: "disk \<Rightarrow> disk \<Rightarrow> bool" where
  process: "crashed d (d\<lparr>dk_temp := None\<rparr>)"
| system: "crash_main d m \<Longrightarrow>
    crashed d (empty_disk\<lparr>dk_main := map_option (\<lambda>b. \<lparr>fl_bytes = b, fl_synced = True\<rparr>) m\<rparr>)"

text \<open>A round sees the file at its present size and may read what is appended meanwhile.
  \<open>elsewhere\<close> is whatever the program does about other files: it may hand records over but
  leaves the position of this file alone.  In a crash the memory is lost; what was handed over
  before stays handed over.  The size of a file is an \<open>int64\<close>.\<close>

inductive life_step :: "'w env \<Rightarrow> ('w \<Rightarrow> log_record list) \<Rightarrow> limits \<Rightarrow> file_target \<Rightarrow> stat_t \<Rightarrow>
    (positions \<Rightarrow> gerr + string) \<Rightarrow> (string \<Rightarrow> gerr + positions option) \<Rightarrow> 'w life \<Rightarrow> 'w life \<Rightarrow> bool"
  for e accepted lim target info marshal unmarshal where
  grow: "int (length (lf_data l @ extra)) < 2 ^ 63 \<Longrightarrow>
    life_step e accepted lim target info marshal unmarshal l (l\<lparr>lf_data := lf_data l @ extra\<rparr>)"
| round: "int (length (lf_data l @ extra)) < 2 ^ 63 \<Longrightarrow>
    readable fs target info (int (length (lf_data l))) (lf_data l @ extra) \<Longrightarrow>
    read e lim fs target (lf_tailer l) = (err, s) \<Longrightarrow>
    life_step e accepted lim target info marshal unmarshal l (l\<lparr>lf_tailer := s, lf_data := lf_data l @ extra\<rparr>)"
| elsewhere: "accepted (tl_world s) = accepted (tl_world (lf_tailer l)) @ rs \<Longrightarrow>
    Get (tl_state s) (identity_key info) = Get (tl_state (lf_tailer l)) (identity_key info) \<Longrightarrow>
    go_table (st_positions (tl_state s)) \<Longrightarrow>
    life_step e accepted lim target info marshal unmarshal l (l\<lparr>lf_tailer := s, lf_exact := lf_exact l \<and> rs = []\<rparr>)"
| save_start: "save_begin marshal force (tl_state (lf_tailer l)) = Some (Inr (b, gen)) \<Longrightarrow>
    life_step e accepted lim target info marshal unmarshal l (l\<lparr>lf_saving := Some (b, gen)\<rparr>)"
| save_write: "lf_saving l = Some (b, gen) \<Longrightarrow> save_files io b (lf_disk l) = (err, ds) \<Longrightarrow> d \<in> set ds \<Longrightarrow>
    life_step e accepted lim target info marshal unmarshal l (l\<lparr>lf_disk := d\<rparr>)"
| save_end: "lf_saving l = Some (b, gen) \<Longrightarrow>
    life_step e accepted lim target info marshal unmarshal l
      (l\<lparr>lf_tailer := (lf_tailer l)\<lparr>tl_state := save_commit gen (tl_state (lf_tailer l))\<rparr>, lf_saving := None\<rparr>)"
| restart: "crashed (lf_disk l) d \<Longrightarrow> Load unmarshal path (Inr (main_bytes d)) = Inr (LoadedStore st) \<Longrightarrow>
    go_table (st_positions st) \<Longrightarrow> accepted w = accepted (tl_world (lf_tailer l)) \<Longrightarrow>
    life_step e accepted lim target info marshal unmarshal l
      (l\<lparr>lf_tailer := \<lparr>tl_state = st, tl_pending = [], tl_next = 0, tl_world = w\<rparr>,
         lf_disk := d, lf_saving := None, lf_exact := False\<rparr>)"

section \<open>Lines of a growing file\<close>

lemma split_all_append:
  "split_all c (s @ t) = butlast (split_all c s) @ (last (split_all c s) @ hd (split_all c t)) # tl (split_all c t)"
proof (induction s)
  case Nil
  show ?case by (cases c t rule: split_all_Cons) simp
next
  case (Cons x s)
  then show ?case
    by (cases c s rule: split_all_Cons; cases c t rule: split_all_Cons) auto
qed

lemma complete_lines_grow: "prefix (complete_lines s) (complete_lines (s @ t))"
  unfolding complete_lines_def split_all_append by (simp add: butlast_append)

lemma split_all_none: "c \<notin> set s \<Longrightarrow> split_all c s = [s]"
  by (induction s) auto

lemma complete_lines_raw:
  "\<forall>l \<in> set ls. newline \<notin> set l \<Longrightarrow> newline \<notin> set part \<Longrightarrow> complete_lines (raw_lines ls @ part) = ls"
proof (induction ls)
  case Nil
  then show ?case by (simp add: complete_lines_def split_all_none)
next
  case (Cons l ls)
  have "split_all newline (l @ newline # raw_lines ls @ part) = l # split_all newline (raw_lines ls @ part)"
    using Cons.prems(1) by (subst split_all_append) (simp add: split_all_none)
  with Cons show ?case
    by (simp add: complete_lines_def split_all_nonempty)
qed

definition offset_of :: "string \<Rightarrow> nat \<Rightarrow> int" where
  "offset_of data n = int (length (raw_lines (take n (complete_lines data))))"

lemma offset_of_le: "offset_of data n \<le> int (length data)"
proof -
  have "length (raw_lines (take n ls)) \<le> length (raw_lines ls)" for ls
    by (metis append_take_drop_id le_add1 length_append raw_lines_simps(3))
  then show ?thesis
    using arg_cong [OF raw_lines_complete [of data], of length] unfolding offset_of_def
    by (metis le_add1 length_append of_nat_mono order_trans)
qed

lemma offset_of_grow: "n \<le> length (complete_lines s) \<Longrightarrow> offset_of (s @ t) n = offset_of s n"
  using complete_lines_grow [of s t] by (auto simp: offset_of_def prefix_def)

lemma take_grow: "n \<le> length (complete_lines s) \<Longrightarrow>
    take n (complete_lines (s @ t)) = take n (complete_lines s) \<and> n \<le> length (complete_lines (s @ t))"
  using complete_lines_grow [of s t] by (auto simp: prefix_def)

lemma complete_lines_drop:
  "complete_lines (drop (nat (offset_of data n)) data) = drop n (complete_lines data)"
proof -
  let ?ls = "complete_lines data" and ?part = "last (split_all newline data)"
  have "raw_lines (take n ?ls) @ raw_lines (drop n ?ls) @ ?part = data"
    using raw_lines_complete [of data] by (metis append.assoc append_take_drop_id raw_lines_simps(3))
  then have "drop (length (raw_lines (take n ?ls))) data = raw_lines (drop n ?ls) @ ?part"
    by (metis append_eq_conv_conj)
  moreover have "complete_lines (raw_lines (drop n ?ls) @ ?part) = drop n ?ls"
    using newline_complete newline_last by (intro complete_lines_raw) (auto dest: in_set_dropD)
  ultimately show ?thesis by (simp add: offset_of_def)
qed

section \<open>The invariant\<close>

definition delivered :: "'w env \<Rightarrow> limits \<Rightarrow> file_target \<Rightarrow> string \<Rightarrow> nat \<Rightarrow> log_record list" where
  "delivered e lim target data n =
     line_records e target (map (bounded_line lim) (take n (complete_lines data)))"

text \<open>An offset is covered when it is the end of a line up to which everything was handed over.\<close>

definition covered :: "'w env \<Rightarrow> limits \<Rightarrow> file_target \<Rightarrow> string \<Rightarrow> log_record list \<Rightarrow> int \<Rightarrow> bool" where
  "covered e lim target data acc off \<longleftrightarrow> (\<exists>n. n \<le> length (complete_lines data) \<and> off = offset_of data n
     \<and> subseq (delivered e lim target data n) (map untimed acc))"

definition offset_in :: "positions \<Rightarrow> string \<Rightarrow> int" where
  "offset_in ps key = (case map_of ps key of Some p \<Rightarrow> Offset p | None \<Rightarrow> 0)"

lemma stored_offset_in: "stored_offset st key = offset_in (st_positions st) key"
  by (simp add: stored_offset_def offset_in_def Get_def)

lemma delivered_grow:
  "n \<le> length (complete_lines s) \<Longrightarrow> delivered e lim target (s @ t) n = delivered e lim target s n"
  by (simp add: delivered_def take_grow)

lemma covered_grow: "covered e lim target s acc off \<Longrightarrow> covered e lim target (s @ t) acc off"
  unfolding covered_def by (metis take_grow offset_of_grow delivered_grow)

lemma covered_more: "covered e lim target s acc off \<Longrightarrow> covered e lim target s (acc @ rs) off"
  unfolding covered_def by (auto intro: subseq_order.trans [OF _ list_emb_prefix])

lemma covered_start: "covered e lim target data acc 0"
  unfolding covered_def by (intro exI [of _ 0]) (simp add: offset_of_def delivered_def line_records_def)

definition exact :: "'w env \<Rightarrow> limits \<Rightarrow> file_target \<Rightarrow> string \<Rightarrow> log_record list \<Rightarrow> log_record list \<Rightarrow> int \<Rightarrow> bool" where
  "exact e lim target data acc0 acc off \<longleftrightarrow> (\<exists>n. n \<le> length (complete_lines data) \<and> off = offset_of data n
     \<and> map untimed acc = map untimed acc0 @ delivered e lim target data n)"

lemma exact_grow: "exact e lim target s acc0 acc off \<Longrightarrow> exact e lim target (s @ t) acc0 acc off"
  unfolding exact_def by (metis take_grow offset_of_grow delivered_grow)

definition saved_ok :: "'w env \<Rightarrow> limits \<Rightarrow> file_target \<Rightarrow> string \<Rightarrow> (string \<Rightarrow> gerr + positions option) \<Rightarrow> string \<Rightarrow>
    log_record list \<Rightarrow> string option \<Rightarrow> bool" where
  "saved_ok e lim target data unmarshal key acc main \<longleftrightarrow>
     (\<exists>ps. readback unmarshal main = Some ps \<and> covered e lim target data acc (offset_in ps key))"

definition disk_ok :: "'w env \<Rightarrow> limits \<Rightarrow> file_target \<Rightarrow> string \<Rightarrow> (string \<Rightarrow> gerr + positions option) \<Rightarrow> string \<Rightarrow>
    log_record list \<Rightarrow> disk \<Rightarrow> bool" where
  "disk_ok e lim target data unmarshal key acc d \<longleftrightarrow>
     (\<forall>m. m = main_bytes d \<or> crash_main d m \<longrightarrow> saved_ok e lim target data unmarshal key acc m)"

definition life_inv :: "'w env \<Rightarrow> ('w \<Rightarrow> log_record list) \<Rightarrow> limits \<Rightarrow> file_target \<Rightarrow> string \<Rightarrow>
    (string \<Rightarrow> gerr + positions option) \<Rightarrow> log_record list \<Rightarrow> 'w life \<Rightarrow> bool" where
  "life_inv e accepted lim target key unmarshal acc0 l \<longleftrightarrow>
     (let acc = accepted (tl_world (lf_tailer l)); off = stored_offset (tl_state (lf_tailer l)) key in
      go_table (st_positions (tl_state (lf_tailer l)))
      \<and> covered e lim target (lf_data l) acc off
      \<and> disk_ok e lim target (lf_data l) unmarshal key acc (lf_disk l)
      \<and> (\<forall>b gen. lf_saving l = Some (b, gen) \<longrightarrow> saved_ok e lim target (lf_data l) unmarshal key acc (Some b))
      \<and> (lf_exact l \<longrightarrow> exact e lim target (lf_data l) acc0 acc off))"

lemma saved_ok_grow: "saved_ok e lim target s unmarshal key acc main \<Longrightarrow>
    saved_ok e lim target (s @ t) unmarshal key (acc @ rs) main"
  unfolding saved_ok_def by (blast intro: covered_grow covered_more)

lemma disk_ok_grow: "disk_ok e lim target s unmarshal key acc d \<Longrightarrow>
    disk_ok e lim target (s @ t) unmarshal key (acc @ rs) d"
  unfolding disk_ok_def by (blast intro: saved_ok_grow)

text \<open>What one round adds.\<close>

lemma round_take:
  assumes "n0 \<le> length (complete_lines data)" "ls = round_lines lim (offset_of data n0) data" "n \<le> length ls"
  shows "take n ls = take n (drop n0 (complete_lines data)) \<and> n0 + n \<le> length (complete_lines data)
    \<and> offset_after (offset_of data n0) ls n = offset_of data (n0 + n)"
proof -
  obtain k where k: "ls = take k (drop n0 (complete_lines data))"
    using assms(2) budget_prefix [of "lim_read lim" "drop n0 (complete_lines data)"]
    by (auto simp: round_lines_def complete_lines_drop)
  then have "n \<le> k" using assms(3) by simp
  with k have t: "take n ls = take n (drop n0 (complete_lines data))" by (simp add: min_absorb1)
  moreover have "n0 + n \<le> length (complete_lines data)" using assms(1,3) k by auto
  ultimately show ?thesis by (simp add: offset_after_def offset_of_def take_add)
qed

lemma delivered_add:
  "delivered e lim target data (n0 + n) = delivered e lim target data n0
     @ line_records e target (map (bounded_line lim) (take n (drop n0 (complete_lines data))))"
  by (simp add: delivered_def line_records_def take_add)

context sink
begin

lemma read_single_state:
  assumes "readable fs target info fsize data" "small_limit lim"
    and "0 \<le> start_offset (tl_state s) info target fsize" "StartPattern (Multiline target) = []"
    and "read e lim fs target s = (err, s')" "valid_utf8 (Path target)" "go_table (st_positions (tl_state s))"
    and off: "0 \<le> stored_offset (tl_state s') (identity_key info)"
      "stored_offset (tl_state s') (identity_key info) < 2 ^ 63"
  shows "go_table (st_positions (tl_state s'))"
proof -
  obtain err1 n s1 where
    a: "accept_lines e lim (identity_key info) target
       (round_lines lim (start_offset (tl_state s) info target fsize) data) s = (err1, n, s1)"
    and r: "read e lim fs target s = (err1, commit_offset e (identity_key info) target
       (stored_offset (tl_state s) (identity_key info))
       (offset_after (start_offset (tl_state s) info target fsize)
          (round_lines lim (start_offset (tl_state s) info target fsize) data) n) s1)"
    by (rule read_round [OF assms(1-3)])
  let ?key = "identity_key info"
    and ?c = "offset_after (start_offset (tl_state s) info target fsize)
       (round_lines lim (start_offset (tl_state s) info target fsize) data) n"
  have st: "tl_state s1 = tl_state s" using accept_lines_single [OF a assms(4)] by blast
  have s': "s' = commit_offset e ?key target (stored_offset (tl_state s) ?key) ?c s1" using r assms(5) by simp
  have "stored_offset (tl_state s') ?key = ?c" unfolding s' by (rule stored_offset_commit [OF st])
  then have "go_position ?key \<lparr>PosPath = Path target, Offset = ?c, UpdatedAt = t\<rparr>" for t
    using off assms(6) valid_utf8_identity_key by (simp add: go_position_def)
  moreover have "go_table (st_positions (Set k p st))" if "go_table (st_positions st)" "go_position k p" for k p st
    using that by (cases k p st rule: Set_cases) (simp_all add: go_table_map_set)
  moreover obtain t w where "env_now e (tl_world s1) = (t, w)" by fastforce
  ultimately show ?thesis using s' st assms(7) by (simp add: commit_offset_def)
qed

end

context sink
begin

lemma life_round:
  assumes inv: "life_inv e accepted lim target (identity_key info) unmarshal acc0 l"
    and cfg: "small_limit lim" "StartPattern (Multiline target) = []" "StartAt target \<noteq> ''end''" "valid_utf8 (Path target)"
    and fits: "int (length (lf_data l @ extra)) < 2 ^ 63"
    and rd: "readable fs target info (int (length (lf_data l))) (lf_data l @ extra)"
      "read e lim fs target (lf_tailer l) = (err, s)"
  shows "life_inv e accepted lim target (identity_key info) unmarshal acc0
    (l\<lparr>lf_tailer := s, lf_data := lf_data l @ extra\<rparr>)"
proof -
  let ?key = "identity_key info" and ?d = "lf_data l @ extra" and ?t = "lf_tailer l"
  let ?off = "stored_offset (tl_state ?t) ?key"
  obtain n0 where n0: "n0 \<le> length (complete_lines ?d)" "?off = offset_of ?d n0"
    "subseq (delivered e lim target ?d n0) (map untimed (accepted (tl_world ?t)))"
    and le: "?off \<le> int (length (lf_data l))"
  proof -
    have c: "covered e lim target (lf_data l) (accepted (tl_world ?t)) ?off"
      using inv by (simp add: life_inv_def Let_def)
    then have "?off \<le> int (length (lf_data l))" by (auto simp: covered_def intro: offset_of_le)
    with covered_grow [OF c, of extra] that show thesis unfolding covered_def by blast
  qed
  have start: "start_offset (tl_state ?t) info target (int (length (lf_data l))) = ?off"
    using le cfg(3) by (auto simp: start_offset_def read_offset_def stored_offset_def split: option.splits)
  have pos: "0 \<le> start_offset (tl_state ?t) info target (int (length (lf_data l)))"
    unfolding start n0(2) by (simp add: offset_of_def)
  define ls where "ls = round_lines lim ?off ?d"
  obtain n rs where r: "n \<le> length ls" "accepted (tl_world s) = accepted (tl_world ?t) @ rs"
    "map untimed rs = line_records e target (map (bounded_line lim) (take n ls))"
    "stored_offset (tl_state s) ?key = offset_after ?off ls n"
    using read_single [OF rd(1) cfg(1) pos cfg(2) rd(2) refl refl, unfolded start, folded ls_def]
    by (elim exE conjE) (rule that)
  note t = round_take [OF n0(1) ls_def [unfolded n0(2)] r(1)]
  have new: "map untimed rs = line_records e target (map (bounded_line lim) (take n (drop n0 (complete_lines ?d))))"
    "stored_offset (tl_state s) ?key = offset_of ?d (n0 + n)"
    using r(3,4) t n0(2) by simp_all
  have "covered e lim target ?d (accepted (tl_world s)) (stored_offset (tl_state s) ?key)"
    unfolding covered_def using t new n0(3) r(2)
    by (intro exI [of _ "n0 + n"]) (simp add: delivered_add list_emb_append_mono)
  moreover have "exact e lim target ?d acc0 (accepted (tl_world s)) (stored_offset (tl_state s) ?key)"
    if "lf_exact l"
  proof -
    have "exact e lim target ?d acc0 (accepted (tl_world ?t)) ?off"
      using inv that by (simp add: life_inv_def Let_def exact_grow)
    then obtain m where m: "m \<le> length (complete_lines ?d)" "?off = offset_of ?d m"
      "map untimed (accepted (tl_world ?t)) = map untimed acc0 @ delivered e lim target ?d m"
      unfolding exact_def by blast
    note tm = round_take [OF m(1) ls_def [unfolded m(2)] r(1)]
    from tm m r show ?thesis
      unfolding exact_def by (intro exI [of _ "m + n"]) (simp add: delivered_add)
  qed
  moreover have off: "0 \<le> stored_offset (tl_state s) ?key" "stored_offset (tl_state s) ?key < 2 ^ 63"
    using fits offset_of_le [of ?d "n0 + n"] unfolding new(2) by (simp_all add: offset_of_def)
  then have "go_table (st_positions (tl_state s))"
    using inv read_single_state [OF rd(1) cfg(1) pos cfg(2) rd(2) cfg(4)] off by (simp add: life_inv_def Let_def)
  ultimately show ?thesis
    using inv saved_ok_grow disk_ok_grow r(2) by (auto simp: life_inv_def Let_def)
qed

end

section \<open>Every step keeps the invariant\<close>

lemma saved_ok_encoded:
  assumes "json_codec marshal unmarshal" "go_table (st_positions st)" "marshal (st_positions st) = Inr b"
    and "covered e lim target data acc (stored_offset st key)"
  shows "saved_ok e lim target data unmarshal key acc (Some b)"
  using json_codecD [OF assms(1-3)] assms(4)
  by (cases "readback unmarshal (Some b)") (auto simp: persisted_def saved_ok_def stored_offset_in offset_in_def)

lemma crashed_main:
  assumes "crashed d d'" "m = main_bytes d' \<or> crash_main d' m"
  shows "m = main_bytes d \<or> crash_main d m"
  using assms
proof (cases rule: crashed.cases)
  case process
  with assms(2) show ?thesis by (simp add: main_bytes_def crash_main_def)
next
  case (system k)
  have "main_bytes d' = k" "crash_main d' m \<longleftrightarrow> m = k" unfolding system(1)
    by (cases k; simp add: empty_disk_def main_bytes_def crash_main_def crash_file_def)+
  with assms(2) system(2) show ?thesis by auto
qed

lemma save_commit_positions [simp]: "st_positions (save_commit gen st) = st_positions st"
  by (simp add: save_commit_def)

context sink
begin

lemma life_inv_step:
  assumes step: "life_step e accepted lim target info marshal unmarshal l l'"
    and inv: "life_inv e accepted lim target (identity_key info) unmarshal acc0 l"
    and codec: "json_codec marshal unmarshal"
    and cfg: "small_limit lim" "StartPattern (Multiline target) = []" "StartAt target \<noteq> ''end''" "valid_utf8 (Path target)"
  shows "life_inv e accepted lim target (identity_key info) unmarshal acc0 l'"
  using step
proof (cases rule: life_step.cases)
  case (grow extra)
  with inv saved_ok_grow [where rs = "[]"] disk_ok_grow [where rs = "[]"] show ?thesis
    by (auto simp: life_inv_def Let_def intro: covered_grow exact_grow)
next
  case (round fs extra err s)
  with life_round [OF inv cfg round(2-4)] show ?thesis by simp
next
  case (elsewhere s rs)
  with inv saved_ok_grow [where t = "[]" and rs = rs] disk_ok_grow [where t = "[]" and rs = rs] covered_more [of e lim target "lf_data l" _ _ rs] show ?thesis
    by (auto simp: life_inv_def Let_def stored_offset_def)
next
  case (save_start force b gen)
  then have "marshal (st_positions (tl_state (lf_tailer l))) = Inr b"
    by (auto simp: save_begin_def split: if_splits sum.splits)
  with saved_ok_encoded [OF codec _ this] inv save_start(1) show ?thesis
    by (auto simp: life_inv_def Let_def)
next
  case (save_write b gen io err ds d)
  have "m = main_bytes (lf_disk l) \<or> crash_main (lf_disk l) m \<or> m = Some b"
    if "m = main_bytes d \<or> crash_main d m" for m
    using save_files_states(1,2) [OF save_write(3,4)] that by blast
  moreover have "disk_ok e lim target (lf_data l) unmarshal (identity_key info) (accepted (tl_world (lf_tailer l))) (lf_disk l)"
    "saved_ok e lim target (lf_data l) unmarshal (identity_key info) (accepted (tl_world (lf_tailer l))) (Some b)"
    using inv save_write(2) by (simp_all add: life_inv_def Let_def)
  ultimately have "disk_ok e lim target (lf_data l) unmarshal (identity_key info) (accepted (tl_world (lf_tailer l))) d"
    unfolding disk_ok_def by metis
  with inv save_write(1) show ?thesis by (simp add: life_inv_def Let_def)
next
  case (save_end b gen)
  with inv show ?thesis by (simp add: life_inv_def Let_def stored_offset_in)
next
  case (restart d path st w)
  have m: "saved_ok e lim target (lf_data l) unmarshal (identity_key info) (accepted (tl_world (lf_tailer l))) m"
    if "m = main_bytes d \<or> crash_main d m" for m
    using inv crashed_main [OF restart(2) that] unfolding life_inv_def Let_def disk_ok_def by (elim conjE) blast
  from m [of "main_bytes d"] Load_readback [OF restart(3)]
  have "covered e lim target (lf_data l) (accepted (tl_world (lf_tailer l)))
      (offset_in (st_positions st) (identity_key info))" by (simp add: saved_ok_def)
  with m restart show ?thesis by (simp add: life_inv_def Let_def stored_offset_in disk_ok_def)
qed

lemma life_inv_reachable:
  assumes "(life_step e accepted lim target info marshal unmarshal)\<^sup>*\<^sup>* (first_start path data w) l"
    and "json_codec marshal unmarshal" "small_limit lim" "StartPattern (Multiline target) = []"
    and "StartAt target \<noteq> ''end''" "valid_utf8 (Path target)"
  shows "life_inv e accepted lim target (identity_key info) unmarshal (accepted w) l"
  using assms(1)
proof (induction rule: rtranclp_induct)
  case base
  have "exact e lim target data (accepted w) (accepted w) 0"
    unfolding exact_def by (intro exI [of _ 0]) (simp add: offset_of_def delivered_def line_records_def)
  then show ?case
    by (simp add: life_inv_def first_start_def Let_def stored_offset_def Get_def covered_start
        disk_ok_def saved_ok_def offset_in_def main_bytes_def crash_main_def crash_file_def empty_disk_def)
next
  case (step l l')
  then show ?case using life_inv_step assms(2-6) by blast
qed

end

section \<open>Property\<close>

text \<open>C2. No line of a growing file is lost, over crashes and restarts.  From the first start, along
  any interleaving of rounds, growth of the file, work on other files, saves that fail or stop at any
  file operation, crashes of the process or of the system, and restarts from whatever state file the
  crash left: the stored position is the end of a line, and every line before it has been handed
  over, in order, possibly more than once.  As long as there was no restart and nothing else was
  handed over, it was handed over exactly once.  This is for a file whose lines are not merged (no
  start pattern; a merged line is lost, see \<open>buffered_line_is_committed\<close>), that is read from its
  beginning (\<open>start_at\<close> is not \<open>end\<close>), that only grows, keeps its inode and stays below \<open>2 ^ 63\<close>
  bytes, whose path is valid UTF-8, and for a JSON coding that decodes the tables it encoded; what
  the other files do leaves positions that JSON can carry.\<close>

theorem lines_survive_crashes:
  assumes "(life_step (pipeline_env cfg ops now compile parse_time next) submitted lim target info marshal unmarshal)\<^sup>*\<^sup>*
      (first_start path data w) l"
    and "json_codec marshal unmarshal" "small_limit lim" "StartPattern (Multiline target) = []"
    and "StartAt target \<noteq> ''end''" "valid_utf8 (Path target)"
  shows "\<exists>n. n \<le> length (complete_lines (lf_data l))
    \<and> stored_offset (tl_state (lf_tailer l)) (identity_key info) = offset_of (lf_data l) n
    \<and> subseq (delivered (pipeline_env cfg ops now compile parse_time next) lim target (lf_data l) n)
        (map untimed (submitted (tl_world (lf_tailer l))))
    \<and> (lf_exact l \<longrightarrow> map untimed (submitted (tl_world (lf_tailer l))) = map untimed (submitted w)
        @ delivered (pipeline_env cfg ops now compile parse_time next) lim target (lf_data l) n)"
proof (cases "lf_exact l")
  case False
  with pipe.life_inv_reachable [OF assms] show ?thesis by (auto simp: life_inv_def Let_def covered_def)
next
  case True
  with pipe.life_inv_reachable [OF assms] obtain n where "n \<le> length (complete_lines (lf_data l))"
    "stored_offset (tl_state (lf_tailer l)) (identity_key info) = offset_of (lf_data l) n"
    "map untimed (submitted (tl_world (lf_tailer l))) = map untimed (submitted w)
        @ delivered (pipeline_env cfg ops now compile parse_time next) lim target (lf_data l) n"
    unfolding life_inv_def Let_def exact_def by blast
  then show ?thesis by (intro exI [of _ n]) (simp add: subseq_drop_many)
qed

definition example_life :: "(unit, unit) flow life" where
  "example_life = first_start ''p'' ''a\<newline>b\<newline>'' (new_limiter () 0 ())"

theorem lines_survive_crashes_witness:
  "\<exists>n. n \<le> 2 \<and> stored_offset (tl_state (snd (example_round ''a\<newline>b\<newline>'' []))) (identity_key (1, 2)) = offset_of ''a\<newline>b\<newline>'' n
    \<and> map untimed (submitted (tl_world (snd (example_round ''a\<newline>b\<newline>'' [])))) =
        delivered example_env example_limits (example_target []) ''a\<newline>b\<newline>'' n"
proof -
  let ?d = "''a\<newline>b\<newline>''" and ?R = "example_round ''a\<newline>b\<newline>'' []"
  have start: "lf_tailer example_life = example_tailer" "lf_data example_life = ?d" "lf_exact example_life"
    by (simp_all add: example_life_def first_start_def example_tailer_def example_store_def)
  have read: "read example_env example_limits (example_fs ?d) (example_target []) (lf_tailer example_life) = (fst ?R, snd ?R)"
    by (simp add: start example_round_def)
  have "readable (example_fs ?d) (example_target []) (1, 2) (int (length (lf_data example_life))) (lf_data example_life @ [])"
    using example_readable [of ?d "[]"] by (simp add: start)
  from life_step.round [OF _ this read, of submitted one_marshal one_unmarshal]
  have run: "(life_step example_env submitted example_limits (example_target []) (1, 2) one_marshal one_unmarshal)\<^sup>*\<^sup>*
      (first_start ''p'' ?d (new_limiter () 0 ())) (example_life\<lparr>lf_tailer := snd ?R, lf_data := ?d\<rparr>)"
    by (simp add: start flip: example_life_def)
  have hyps: "json_codec one_marshal one_unmarshal" "StartAt (example_target []) \<noteq> ''end''"
    "valid_utf8 (Path (example_target []))"
    by (simp_all add: json_codec_def one_marshal_def one_unmarshal_def example_target_def valid_utf8_def
        runes_of_bytes of_runes_bytes del: list.map)
  have two: "length (complete_lines ?d) = 2" by (simp add: complete_lines_def)
  have "submitted (new_limiter () 0 () :: (unit, unit) flow) = []" by (simp add: submitted_def new_limiter_def)
  with lines_survive_crashes [where cfg = example_flow and ops = example_bucket and now = example_now
      and compile = example_compile and parse_time = example_parse and ?next = example_next,
      folded example_env_def, OF run hyps(1) example_limits_ok _ hyps(2,3)] start two
  show ?thesis by auto
qed

end
