(* ===== verification/Scheduler.thy ===== *)
theory Scheduler
  imports App
begin

text \<open>
  The goroutines of \<open>Run\<close> in \<open>internal/app/app.go\<close>, as a step relation: four loops (the
  watcher and the three periodic actions), the exporter, and the main goroutine with its
  shut-down.  What an action does is in the other theories; here it returns nil or an error.
  The channels \<open>errCh\<close> (capacity 3) and \<open>exportErr\<close> (capacity 1), the contexts and the
  wait group are part of the state.
\<close>

section \<open>State\<close>

datatype loop_id = WatchLoop | DiscoveryLoop | ReadLoop | SaveLoop

text \<open>\<open>ExportReported\<close>: the result is in the channel; \<open>ExportGone\<close>: the main goroutine
  took it and set the channel to nil, or there is no exporter.\<close>

datatype export_state = ExportRunning | ExportReported "gerr option" | ExportGone

datatype main_phase =
  Selecting
| WaitingLoops "gerr option"
| WaitingExporter "gerr option"
| Returned "gerr option"

text \<open>A history: actions of the loops, and the close of the tailer.\<close>

datatype run_event = Action loop_id | TailClosed

record run_state =
  ru_running :: "loop_id list"
  ru_loopsStopped :: bool
  ru_errCh :: "gerr list"
  ru_exporter :: export_state
  ru_exportStopped :: bool
  ru_active :: bool
  ru_main :: main_phase
  ru_events :: "run_event list"
  ru_failures :: "gerr list"

definition run_start :: "bool \<Rightarrow> run_state" where
  "run_start enabled = \<lparr>ru_running = [WatchLoop, DiscoveryLoop, ReadLoop, SaveLoop], ru_loopsStopped = False,
     ru_errCh = [], ru_exporter = (if enabled then ExportRunning else ExportGone), ru_exportStopped = False,
     ru_active = enabled, ru_main = Selecting, ru_events = [], ru_failures = []\<rparr>"

section \<open>The goroutines\<close>

text \<open>One turn of a loop; for the watcher, a reload.  The send does not wait: a full channel
  drops the error.\<close>

definition send_err :: "gerr \<Rightarrow> run_state \<Rightarrow> run_state" where
  "send_err err s = (if length (ru_errCh s) < 3 then s\<lparr>ru_errCh := ru_errCh s @ [err]\<rparr> else s)"

definition end_loop :: "loop_id \<Rightarrow> run_state \<Rightarrow> run_state" where
  "end_loop i s = s\<lparr>ru_running := remove1 i (ru_running s)\<rparr>"

definition loop_action :: "loop_id \<Rightarrow> gerr option \<Rightarrow> run_state \<Rightarrow> run_state" where
  "loop_action i res s =
     (let s = s\<lparr>ru_events := ru_events s @ [Action i]\<rparr> in
      case res of
        None \<Rightarrow> s
      | Some err \<Rightarrow> end_loop i (send_err err (s\<lparr>ru_failures := ru_failures s @ [err]\<rparr>)))"

text \<open>The exporter's goroutine: it cancels the waiting calls of \<open>Enqueue\<close>, then reports.\<close>

definition exporter_returns :: "gerr option \<Rightarrow> run_state \<Rightarrow> run_state" where
  "exporter_returns res s = s\<lparr>ru_exportStopped := True, ru_exporter := ExportReported res\<rparr>"

text \<open>\<open>shutdown\<close>, cut where it waits.\<close>

definition shutdown_begin :: "gerr option \<Rightarrow> run_state \<Rightarrow> run_state" where
  "shutdown_begin runErr s = s\<lparr>ru_loopsStopped := True, ru_main := WaitingLoops runErr\<rparr>"

definition shutdown_close :: "bool \<Rightarrow> gerr option \<Rightarrow> gerr option \<Rightarrow> run_state \<Rightarrow> run_state" where
  "shutdown_close enabled runErr closeErr s =
     (let runErr = (case runErr of None \<Rightarrow> closeErr | Some err \<Rightarrow> Some err);
          s = s\<lparr>ru_events := ru_events s @ [TailClosed],
                ru_failures := ru_failures s @ (case closeErr of None \<Rightarrow> [] | Some err \<Rightarrow> [err])\<rparr>
      in if \<not> enabled then s\<lparr>ru_main := Returned runErr\<rparr>
         else
           let s = s\<lparr>ru_exportStopped := True\<rparr> in
           if ru_exporter s = ExportGone then s\<lparr>ru_main := Returned runErr\<rparr>
           else s\<lparr>ru_main := WaitingExporter runErr\<rparr>)"

text \<open>A loop whose ticker and whose context are both ready may take either.  The exporter returns
  by itself only when a send fails; otherwise it has to be told to stop, and then drains and
  returns, with an error or without.\<close>

inductive run_step :: "bool \<Rightarrow> run_state \<Rightarrow> run_state \<Rightarrow> bool" for enabled where
  action: "i \<in> set (ru_running s) \<Longrightarrow> run_step enabled s (loop_action i res s)"
| stopped: "i \<in> set (ru_running s) \<Longrightarrow> ru_loopsStopped s \<Longrightarrow> run_step enabled s (end_loop i s)"
| export_fails: "ru_exporter s = ExportRunning \<Longrightarrow> run_step enabled s (exporter_returns (Some err) s)"
| export_stops: "ru_exporter s = ExportRunning \<Longrightarrow> ru_exportStopped s \<Longrightarrow>
    run_step enabled s (exporter_returns res s)"
| interrupt: "ru_main s = Selecting \<Longrightarrow> run_step enabled s (shutdown_begin None s)"
| failed: "ru_main s = Selecting \<Longrightarrow> ru_errCh s = err # errs \<Longrightarrow>
    run_step enabled s (shutdown_begin (Some err) (s\<lparr>ru_errCh := errs\<rparr>))"
| export_lost: "ru_main s = Selecting \<Longrightarrow> ru_exporter s = ExportReported res \<Longrightarrow>
    run_step enabled s (s\<lparr>ru_active := False, ru_exporter := ExportGone\<rparr>)"
| loops_ended: "ru_main s = WaitingLoops runErr \<Longrightarrow> ru_running s = [] \<Longrightarrow>
    run_step enabled s (shutdown_close enabled runErr closeErr s)"
| exporter_ended: "ru_main s = WaitingExporter runErr \<Longrightarrow> ru_exporter s = ExportReported res \<Longrightarrow>
    run_step enabled s (s\<lparr>ru_main := Returned runErr, ru_exporter := ExportGone\<rparr>)"

inductive_cases run_stepE: "run_step enabled s s'"

section \<open>What holds in every reachable state\<close>

fun close_done :: "main_phase \<Rightarrow> bool" where
  "close_done Selecting = False"
| "close_done (WaitingLoops r) = False"
| "close_done (WaitingExporter r) = True"
| "close_done (Returned r) = True"

text \<open>Actions first, then at most one close of the tailer.\<close>

definition closed_last :: "run_event list \<Rightarrow> bool \<Rightarrow> bool" where
  "closed_last es done \<longleftrightarrow> (\<exists>as. list_all (\<lambda>ev. ev \<noteq> TailClosed) as \<and> es = as @ (if done then [TailClosed] else []))"

fun main_result :: "main_phase \<Rightarrow> gerr option" where
  "main_result Selecting = None"
| "main_result (WaitingLoops r) = r"
| "main_result (WaitingExporter r) = r"
| "main_result (Returned r) = r"

fun exporter_ok :: "main_phase \<Rightarrow> export_state \<Rightarrow> bool" where
  "exporter_ok (WaitingExporter r) x = (x \<noteq> ExportGone)"
| "exporter_ok (Returned r) x = (x = ExportGone)"
| "exporter_ok m x = True"

definition loops_inv :: "run_state \<Rightarrow> bool" where
  "loops_inv s \<longleftrightarrow> distinct (ru_running s) \<and> ru_loopsStopped s = (ru_main s \<noteq> Selecting)
     \<and> (close_done (ru_main s) \<longrightarrow> ru_running s = [])
     \<and> closed_last (ru_events s) (close_done (ru_main s))"

definition errors_inv :: "run_state \<Rightarrow> bool" where
  "errors_inv s \<longleftrightarrow> length (ru_errCh s) \<le> 3 \<and> set (ru_errCh s) \<subseteq> set (ru_failures s)
     \<and> (ru_main s = Selecting \<longrightarrow> ru_errCh s = take 3 (ru_failures s))
     \<and> set_option (main_result (ru_main s)) \<subseteq> set (ru_failures s)"

definition exporter_inv :: "bool \<Rightarrow> run_state \<Rightarrow> bool" where
  "exporter_inv enabled s \<longleftrightarrow> exporter_ok (ru_main s) (ru_exporter s)
     \<and> (ru_exporter s \<noteq> ExportGone \<longrightarrow> enabled)
     \<and> (ru_exportStopped s = (enabled \<and> (ru_exporter s \<noteq> ExportRunning \<or> close_done (ru_main s))))
     \<and> (close_done (ru_main s) \<or> ru_active s = (ru_exporter s \<noteq> ExportGone))"

definition run_inv :: "bool \<Rightarrow> run_state \<Rightarrow> bool" where
  "run_inv enabled s \<longleftrightarrow> loops_inv s \<and> errors_inv s \<and> exporter_inv enabled s"

lemma run_inv_start: "run_inv enabled (run_start enabled)"
  by (simp add: run_inv_def loops_inv_def errors_inv_def exporter_inv_def run_start_def closed_last_def)

lemma closed_last_snoc:
  "closed_last es False \<Longrightarrow> closed_last (es @ [Action i]) False"
  "closed_last es False \<Longrightarrow> closed_last (es @ [TailClosed]) True"
  by (auto simp: closed_last_def)

lemma send_err_fields [simp]:
  "ru_running (send_err err s) = ru_running s" "ru_loopsStopped (send_err err s) = ru_loopsStopped s"
  "ru_exporter (send_err err s) = ru_exporter s" "ru_exportStopped (send_err err s) = ru_exportStopped s"
  "ru_active (send_err err s) = ru_active s" "ru_main (send_err err s) = ru_main s"
  "ru_events (send_err err s) = ru_events s" "ru_failures (send_err err s) = ru_failures s"
  by (simp_all add: send_err_def)

lemma send_err_queue:
  "length (ru_errCh s) \<le> 3 \<Longrightarrow> length (ru_errCh (send_err err s)) \<le> 3"
  "set (ru_errCh (send_err err s)) \<subseteq> insert err (set (ru_errCh s))"
  by (auto simp: send_err_def)

lemma end_loop_fields [simp]:
  "ru_running (end_loop i s) = remove1 i (ru_running s)" "ru_loopsStopped (end_loop i s) = ru_loopsStopped s"
  "ru_exporter (end_loop i s) = ru_exporter s" "ru_exportStopped (end_loop i s) = ru_exportStopped s"
  "ru_active (end_loop i s) = ru_active s" "ru_main (end_loop i s) = ru_main s" "ru_errCh (end_loop i s) = ru_errCh s"
  "ru_events (end_loop i s) = ru_events s" "ru_failures (end_loop i s) = ru_failures s"
  by (simp_all add: end_loop_def)

lemma loop_action_fields [simp]:
  "ru_running (loop_action i res s) = (if res = None then ru_running s else remove1 i (ru_running s))"
  "ru_loopsStopped (loop_action i res s) = ru_loopsStopped s" "ru_exporter (loop_action i res s) = ru_exporter s"
  "ru_exportStopped (loop_action i res s) = ru_exportStopped s" "ru_active (loop_action i res s) = ru_active s"
  "ru_main (loop_action i res s) = ru_main s" "ru_events (loop_action i res s) = ru_events s @ [Action i]"
  by (simp_all add: loop_action_def Let_def split: option.split)

lemma errors_inv_action: "errors_inv s \<Longrightarrow> errors_inv (loop_action i res s)"
  by (cases res) (auto simp: errors_inv_def loop_action_def Let_def send_err_def)

lemma loops_inv_step: "run_step enabled s s' \<Longrightarrow> loops_inv s \<Longrightarrow> loops_inv s'"
proof (induction rule: run_step.induct)
  case (action i s res)
  then have "\<not> close_done (ru_main s)" by (auto simp: loops_inv_def)
  with action show ?case by (simp add: loops_inv_def closed_last_snoc(1))
next
  case (loops_ended s runErr closeErr)
  then have "closed_last (ru_events s @ [TailClosed]) True" by (simp add: loops_inv_def closed_last_snoc(2))
  with loops_ended show ?case by (simp add: loops_inv_def shutdown_close_def Let_def)
qed (auto simp: loops_inv_def exporter_returns_def shutdown_begin_def)

lemma errors_inv_step: "run_step enabled s s' \<Longrightarrow> errors_inv s \<Longrightarrow> errors_inv s'"
proof (induction rule: run_step.induct)
  case (action i s res)
  then show ?case by (simp add: errors_inv_action)
next
  case (loops_ended s runErr closeErr)
  then show ?case
    by (cases runErr; cases closeErr) (auto simp: errors_inv_def shutdown_close_def Let_def)
qed (auto simp: errors_inv_def exporter_returns_def shutdown_begin_def)

lemma exporter_inv_step: "run_step enabled s s' \<Longrightarrow> exporter_inv enabled s \<Longrightarrow> exporter_inv enabled s'"
proof (induction rule: run_step.induct)
  case (export_fails s err)
  then show ?case by (cases "ru_main s") (simp_all add: exporter_inv_def exporter_returns_def)
next
  case (export_stops s res)
  then show ?case by (cases "ru_main s") (simp_all add: exporter_inv_def exporter_returns_def)
next
  case (loops_ended s runErr closeErr)
  then show ?case by (simp add: exporter_inv_def shutdown_close_def Let_def)
qed (auto simp: exporter_inv_def shutdown_begin_def)

lemma run_inv_reachable:
  assumes "(run_step enabled)\<^sup>*\<^sup>* (run_start enabled) s"
  shows "run_inv enabled s"
  using assms
proof (induction rule: rtranclp_induct)
  case base
  show ?case by (rule run_inv_start)
next
  case (step s s')
  then show ?case using loops_inv_step errors_inv_step exporter_inv_step unfolding run_inv_def by blast
qed

section \<open>Finishing\<close>

text \<open>The steps of the shut-down that are not put off for ever: a loop takes its done context, the
  exporter that was told to stop returns, the close of the tailer returns when the loops have
  ended, and the main goroutine takes the exporter's result.  New actions of the loops and failures
  of the exporter may come in between.\<close>

inductive progress :: "bool \<Rightarrow> run_state \<Rightarrow> run_state \<Rightarrow> bool" for enabled where
  stopped: "i \<in> set (ru_running s) \<Longrightarrow> ru_loopsStopped s \<Longrightarrow> progress enabled s (end_loop i s)"
| export_stops: "ru_exporter s = ExportRunning \<Longrightarrow> ru_exportStopped s \<Longrightarrow>
    progress enabled s (exporter_returns res s)"
| loops_ended: "ru_main s = WaitingLoops runErr \<Longrightarrow> ru_running s = [] \<Longrightarrow>
    progress enabled s (shutdown_close enabled runErr closeErr s)"
| exporter_ended: "ru_main s = WaitingExporter runErr \<Longrightarrow> ru_exporter s = ExportReported res \<Longrightarrow>
    progress enabled s (s\<lparr>ru_main := Returned runErr, ru_exporter := ExportGone\<rparr>)"

text \<open>A run that may idle, and that does not put progress off for ever.\<close>

definition fair_run :: "bool \<Rightarrow> (nat \<Rightarrow> run_state) \<Rightarrow> bool" where
  "fair_run enabled f \<longleftrightarrow> f 0 = run_start enabled
     \<and> (\<forall>n. run_step enabled (f n) (f (Suc n)) \<or> f (Suc n) = f n)
     \<and> (\<forall>n. (\<exists>t. progress enabled (f n) t) \<longrightarrow> (\<exists>m \<ge> n. progress enabled (f m) (f (Suc m))))"

text \<open>What is left to do.\<close>

fun phase_left :: "main_phase \<Rightarrow> nat" where
  "phase_left Selecting = 3"
| "phase_left (WaitingLoops r) = 2"
| "phase_left (WaitingExporter r) = 1"
| "phase_left (Returned r) = 0"

definition left :: "run_state \<Rightarrow> nat" where
  "left s = length (ru_running s) + (if ru_exporter s = ExportRunning then 1 else 0) + phase_left (ru_main s)"

lemma shutdown_close_fields:
  "ru_main (shutdown_close enabled runErr closeErr s) =
     (if enabled \<and> ru_exporter s \<noteq> ExportGone then WaitingExporter else Returned)
       (case runErr of None \<Rightarrow> closeErr | Some err \<Rightarrow> Some err)"
  "ru_exporter (shutdown_close enabled runErr closeErr s) = ru_exporter s"
  "ru_running (shutdown_close enabled runErr closeErr s) = ru_running s"
  by (simp_all add: shutdown_close_def Let_def)

lemma length_remove1_less: "i \<in> set xs \<Longrightarrow> length (remove1 i xs) < length xs"
  by (metis One_nat_def diff_less length_pos_if_in_set length_remove1 zero_less_one)

lemma progress_less: "progress enabled s t \<Longrightarrow> left t < left s"
proof (induction rule: progress.induct)
  case (stopped i s)
  then show ?case by (simp add: left_def length_remove1_less)
qed (auto simp: left_def exporter_returns_def shutdown_close_fields)

lemma run_step_left: "run_step enabled s t \<Longrightarrow> left t \<le> left s"
proof (induction rule: run_step.induct)
  case (action i s res)
  then show ?case using length_remove1_less [of i "ru_running s"] by (simp add: left_def)
next
  case (stopped i s)
  then show ?case using length_remove1_less [of i "ru_running s"] by (simp add: left_def)
qed (auto simp: left_def exporter_returns_def shutdown_begin_def shutdown_close_fields)

text \<open>In the shut-down there is always progress to make, until \<open>Run\<close> has returned.  For the last
  wait this needs that the shut-down has told the exporter to stop.\<close>

lemma progress_enabled:
  assumes "run_inv enabled s" "ru_main s \<noteq> Selecting" "\<forall>r. ru_main s \<noteq> Returned r"
  shows "\<exists>t. progress enabled s t"
proof (cases "ru_main s")
  case (WaitingLoops r)
  then have st: "ru_loopsStopped s" using assms(1) by (simp add: run_inv_def loops_inv_def)
  show ?thesis
  proof (cases "ru_running s")
    case Nil
    with WaitingLoops show ?thesis by (blast intro: progress.loops_ended)
  next
    case (Cons i rest)
    then have "i \<in> set (ru_running s)" by simp
    then show ?thesis using st by (blast intro: progress.stopped)
  qed
next
  case (WaitingExporter r)
  then have x: "ru_exporter s \<noteq> ExportGone" and e: "ru_exportStopped s"
    using assms(1) by (auto simp: run_inv_def exporter_inv_def)
  show ?thesis
  proof (cases "ru_exporter s")
    case ExportRunning
    then show ?thesis using e by (blast intro: progress.export_stops)
  next
    case (ExportReported res)
    with WaitingExporter show ?thesis by (blast intro: progress.exporter_ended)
  qed (use x in simp)
qed (use assms in auto)

text \<open>The shut-down does not go back, and keeps the error it has.\<close>

lemma shutdown_forward:
  assumes "run_step enabled s t" "ru_main s \<noteq> Selecting"
  shows "ru_main t \<noteq> Selecting" "main_result (ru_main s) = Some e \<Longrightarrow> main_result (ru_main t) = Some e"
    and "close_done (ru_main s) \<Longrightarrow> close_done (ru_main t) \<and> main_result (ru_main t) = main_result (ru_main s)"
    and "ru_main s = Returned r \<Longrightarrow> ru_main t = Returned r"
  using assms by (auto elim!: run_stepE simp: exporter_returns_def shutdown_close_fields split: if_splits)

lemma fair_run_reaches:
  assumes "fair_run enabled f"
  shows "(run_step enabled)\<^sup>*\<^sup>* (run_start enabled) (f n)"
proof (induction n)
  case (Suc n)
  from assms have "run_step enabled (f n) (f (Suc n)) \<or> f (Suc n) = f n" by (simp add: fair_run_def)
  with Suc show ?case by (metis rtranclp.rtrancl_into_rtrancl)
qed (use assms in \<open>simp add: fair_run_def\<close>)

lemma fair_run_keeps:
  assumes "fair_run enabled f" "\<And>s t. run_step enabled s t \<Longrightarrow> P s \<Longrightarrow> P t" "P (f n)" "n \<le> m"
  shows "P (f m)"
  using assms(4)
proof (induction m rule: dec_induct)
  case base
  show ?case by (rule assms(3))
next
  case (step m)
  from assms(1) have "run_step enabled (f m) (f (Suc m)) \<or> f (Suc m) = f m" by (simp add: fair_run_def)
  with step assms(2) show ?case by metis
qed

lemma fair_run_returns:
  assumes "fair_run enabled f" "ru_main (f n) \<noteq> Selecting"
  shows "\<exists>m r. n \<le> m \<and> ru_main (f m) = Returned r"
  using assms(2)
proof (induction "left (f n)" arbitrary: n rule: less_induct)
  case less
  show ?case
  proof (cases "\<exists>r. ru_main (f n) = Returned r")
    case False
    have "run_inv enabled (f n)" by (rule run_inv_reachable [OF fair_run_reaches [OF assms(1)]])
    then obtain t where "progress enabled (f n) t" using progress_enabled less.prems False by blast
    then obtain m where m: "n \<le> m" "progress enabled (f m) (f (Suc m))"
      using assms(1) unfolding fair_run_def by blast
    have "left (f m) \<le> left (f n)"
      by (rule fair_run_keeps [where P = "\<lambda>s. left s \<le> left (f n)" and n = n, OF assms(1) _ _ m(1)])
         (use run_step_left in fastforce)+
    then have l: "left (f (Suc m)) < left (f n)" using progress_less [OF m(2)] by simp
    have "ru_main (f (Suc m)) \<noteq> Selecting"
      by (rule fair_run_keeps [where P = "\<lambda>s. ru_main s \<noteq> Selecting" and n = n, OF assms(1)])
         (use shutdown_forward(1) less.prems m(1) in auto)
    from less.hyps [OF l this] m(1) show ?thesis by (meson Suc_leD order_trans)
  qed blast
qed

section \<open>Properties\<close>

text \<open>C18. The goroutines of \<open>Run\<close> are kept in order.  In every reachable state: no action of a
  loop runs during or after the close of the tailer, which happens at most once; while the main
  goroutine selects, the error channel holds the first three failures of the loops (a fourth, which
  would find it full, is dropped), so a loop never waits to report one, and once a loop has failed
  there is an error for the main goroutine to take; the error that ends the program is one that a
  loop or the close reported, never the result of the exporter; once the exporter has stopped, the
  calls waiting for its queue are cancelled; and the exporter is not stopped by the shut-down
  before the tailer has been closed.\<close>

theorem run_is_orderly:
  assumes "(run_step enabled)\<^sup>*\<^sup>* (run_start enabled) s"
  shows "closed_last (ru_events s) (close_done (ru_main s))
    \<and> (close_done (ru_main s) \<longrightarrow> ru_running s = [])
    \<and> (ru_main s = Selecting \<longrightarrow> ru_errCh s = take 3 (ru_failures s))
    \<and> length (ru_errCh s) \<le> 3
    \<and> set_option (main_result (ru_main s)) \<subseteq> set (ru_failures s)
    \<and> (enabled \<and> ru_exporter s \<noteq> ExportRunning \<longrightarrow> ru_exportStopped s)
    \<and> (ru_exportStopped s \<and> \<not> close_done (ru_main s) \<longrightarrow> ru_exporter s \<noteq> ExportRunning)
    \<and> (ru_active s \<and> \<not> close_done (ru_main s) \<longrightarrow> ru_exporter s \<noteq> ExportGone)"
  using run_inv_reachable [OF assms]
  by (auto simp: run_inv_def loops_inv_def errors_inv_def exporter_inv_def)

text \<open>C19. The shut-down always ends.  On every run, whatever the loops and the exporter still do in
  between, once the shut-down has begun the main goroutine returns, and stays returned, as long as
  the steps of the shut-down are not put off for ever: a loop sees its cancelled context, an
  exporter that was told to stop returns, and the close of the tailer returns.  The error that
  started the shut-down is the result; without one it is that of the close.  The wait for a running
  exporter ends only because the shut-down has told it to stop.\<close>

theorem run_always_finishes:
  assumes "fair_run enabled f" "ru_main (f n) \<noteq> Selecting"
  shows "\<exists>m r. n \<le> m \<and> (\<forall>k \<ge> m. ru_main (f k) = Returned r)
    \<and> (\<forall>e. main_result (ru_main (f n)) = Some e \<longrightarrow> r = Some e)
    \<and> (close_done (ru_main (f n)) \<longrightarrow> r = main_result (ru_main (f n)))
    \<and> closed_last (ru_events (f m)) True \<and> ru_running (f m) = []"
proof -
  obtain m r where m: "n \<le> m" "ru_main (f m) = Returned r" using fair_run_returns [OF assms] by blast
  have stays: "ru_main (f k) = Returned r" if "m \<le> k" for k
    by (rule fair_run_keeps [where P = "\<lambda>s. ru_main s = Returned r" and n = m, OF assms(1) _ _ that])
       (use shutdown_forward(4) m(2) in auto)
  have err: "r = Some e" if "main_result (ru_main (f n)) = Some e" for e
  proof -
    have "ru_main (f m) \<noteq> Selecting \<and> main_result (ru_main (f m)) = Some e"
      by (rule fair_run_keeps [where P = "\<lambda>s. ru_main s \<noteq> Selecting \<and> main_result (ru_main s) = Some e" and n = n,
            OF assms(1) _ _ m(1)])
         (use that assms(2) shutdown_forward(1,2) in blast)+
    with m(2) show ?thesis by simp
  qed
  have res: "r = main_result (ru_main (f n))" if "close_done (ru_main (f n))"
  proof -
    have "ru_main (f m) \<noteq> Selecting \<and> close_done (ru_main (f m))
        \<and> main_result (ru_main (f m)) = main_result (ru_main (f n))"
      by (rule fair_run_keeps [where P = "\<lambda>s. ru_main s \<noteq> Selecting \<and> close_done (ru_main s)
              \<and> main_result (ru_main s) = main_result (ru_main (f n))" and n = n, OF assms(1) _ _ m(1)])
         (use that assms(2) shutdown_forward(1,3) in fastforce)+
    with m(2) show ?thesis by simp
  qed
  have "run_inv enabled (f m)" by (rule run_inv_reachable [OF fair_run_reaches [OF assms(1)]])
  then have "closed_last (ru_events (f m)) True \<and> ru_running (f m) = []"
    using m(2) by (simp add: run_inv_def loops_inv_def)
  with m(1) stays err res show ?thesis by blast
qed

text \<open>An example: a round of reading, a failing save, and the shut-down up to the wait for the
  loops.\<close>

definition example_failed :: run_state where
  "example_failed = loop_action SaveLoop (Some (IOErr ''ENOSPC'')) (loop_action ReadLoop None (run_start True))"

lemma example_failed_reachable: "(run_step True)\<^sup>*\<^sup>* (run_start True) example_failed"
proof -
  have 1: "run_step True (run_start True) (loop_action ReadLoop None (run_start True))"
    by (rule run_step.action) (simp add: run_start_def)
  have 2: "run_step True (loop_action ReadLoop None (run_start True)) example_failed"
    unfolding example_failed_def by (rule run_step.action) (simp add: run_start_def)
  show ?thesis using 1 2 by (meson converse_rtranclp_into_rtranclp r_into_rtranclp)
qed

theorem run_is_orderly_witness:
  "ru_errCh example_failed = take 3 [IOErr ''ENOSPC'']"
  using run_is_orderly [OF example_failed_reachable]
  by (simp add: example_failed_def loop_action_def end_loop_def send_err_def run_start_def Let_def)

text \<open>A whole run: an interrupt, the loops end, the tailer closes, the exporter drains.\<close>

definition example_path :: "run_state list" where
  "example_path =
     (let s0 = run_start True; s1 = shutdown_begin None s0; s2 = end_loop WatchLoop s1;
          s3 = end_loop DiscoveryLoop s2; s4 = end_loop ReadLoop s3; s5 = end_loop SaveLoop s4;
          s6 = shutdown_close True None (Some (IOErr ''ENOSPC'')) s5; s7 = exporter_returns None s6
      in [s0, s1, s2, s3, s4, s5, s6, s7,
          s7\<lparr>ru_main := Returned (Some (IOErr ''ENOSPC'')), ru_exporter := ExportGone\<rparr>])"

definition example_run :: "nat \<Rightarrow> run_state" where
  "example_run n = example_path ! min n 8"

lemmas example_run_defs = example_run_def example_path_def Let_def run_start_def shutdown_begin_def end_loop_def
  shutdown_close_def exporter_returns_def

lemma example_run_last: "8 \<le> n \<Longrightarrow> example_run n = example_run 8"
  by (simp add: example_run_def min_def)

lemma example_run_steps:
  "run_step True (example_run 0) (example_run 1)" "run_step True (example_run 1) (example_run 2)"
  "run_step True (example_run 2) (example_run 3)" "run_step True (example_run 3) (example_run 4)"
  "run_step True (example_run 4) (example_run 5)" "run_step True (example_run 5) (example_run 6)"
  "run_step True (example_run 6) (example_run 7)" "progress True (example_run 7) (example_run 8)"
proof -
  have e: "example_run 1 = shutdown_begin None (example_run 0)" "example_run 2 = end_loop WatchLoop (example_run 1)"
    "example_run 3 = end_loop DiscoveryLoop (example_run 2)" "example_run 4 = end_loop ReadLoop (example_run 3)"
    "example_run 5 = end_loop SaveLoop (example_run 4)"
    "example_run 6 = shutdown_close True None (Some (IOErr ''ENOSPC'')) (example_run 5)"
    "example_run 7 = exporter_returns None (example_run 6)"
    "example_run 8 = (example_run 7)\<lparr>ru_main := Returned (Some (IOErr ''ENOSPC'')), ru_exporter := ExportGone\<rparr>"
    by (simp_all add: example_run_defs)
  show "run_step True (example_run 0) (example_run 1)" unfolding e(1)
    by (rule run_step.interrupt) (simp add: example_run_defs)
  show "run_step True (example_run 1) (example_run 2)" unfolding e(2)
    by (rule run_step.stopped) (simp_all add: example_run_defs)
  show "run_step True (example_run 2) (example_run 3)" unfolding e(3)
    by (rule run_step.stopped) (simp_all add: example_run_defs)
  show "run_step True (example_run 3) (example_run 4)" unfolding e(4)
    by (rule run_step.stopped) (simp_all add: example_run_defs)
  show "run_step True (example_run 4) (example_run 5)" unfolding e(5)
    by (rule run_step.stopped) (simp_all add: example_run_defs)
  show "run_step True (example_run 5) (example_run 6)" unfolding e(6)
    by (rule run_step.loops_ended) (simp_all add: example_run_defs)
  show "run_step True (example_run 6) (example_run 7)" unfolding e(7)
    by (rule run_step.export_stops) (simp_all add: example_run_defs)
  show "progress True (example_run 7) (example_run 8)" unfolding e(8)
    by (rule progress.exporter_ended [of _ _ None]) (simp_all add: example_run_defs)
qed

lemma progress_run_step: "progress enabled s t \<Longrightarrow> run_step enabled s t"
  by (induction rule: progress.induct) (auto intro: run_step.intros)

lemma example_run_fair: "fair_run True example_run"
  unfolding fair_run_def
proof (intro conjI allI impI)
  show "example_run 0 = run_start True" by (simp add: example_run_def example_path_def Let_def)
next
  fix n
  show "run_step True (example_run n) (example_run (Suc n)) \<or> example_run (Suc n) = example_run n"
  proof (cases "8 \<le> n")
    case True
    then show ?thesis using example_run_last [of n] example_run_last [of "Suc n"] by simp
  next
    case False
    then have "n \<in> {0, 1, 2, 3, 4, 5, 6, 7}" by auto
    then show ?thesis
      using example_run_steps(1-7) progress_run_step [OF example_run_steps(8)] by (auto simp: numeral_eq_Suc)
  qed
next
  fix n assume "\<exists>t. progress True (example_run n) t"
  moreover have "\<not> progress True (example_run 8) t" for t
    by (auto elim!: progress.cases simp: example_run_defs)
  ultimately have "n \<le> 7" using example_run_last [of n] by (cases "8 \<le> n") auto
  then show "\<exists>m \<ge> n. progress True (example_run m) (example_run (Suc m))"
    using example_run_steps(8) by (intro exI [of _ 7]) (simp add: numeral_eq_Suc)
qed

theorem run_always_finishes_witness:
  "\<exists>m r. ru_main (example_run m) = Returned r \<and> ru_running (example_run m) = []"
proof -
  have "ru_main (example_run 1) \<noteq> Selecting" by (simp add: example_run_defs)
  from run_always_finishes [OF example_run_fair this] show ?thesis by blast
qed

end
