(* ===== verification/Reload.thy ===== *)
theory Reload
  imports Prelude GoPath
begin

text \<open>
  The watcher of the configuration file, \<open>internal/reload/watcher.go\<close>, as a step relation.
  The events of fsnotify and the passing of time are inputs: a step happens at a time that is
  not before the last one, and where several cases of the \<open>select\<close> are ready any of them
  may be taken.  A timer that is stopped or reset does not fire with its old deadline, as the
  \<open>go.mod\<close> version of Go has it.
\<close>

datatype fs_op = OpCreate | OpWrite | OpRemove | OpRename | OpChmod

record watcher =
  wa_path :: string
  wa_running :: bool
  wa_deadline :: "time option"  \<comment> \<open>the timer, when \<open>timerC\<close> is not nil\<close>
  wa_now :: time
  wa_history :: "(bool \<times> time) list"  \<comment> \<open>not in the code: changes seen (True) and reloads (False)\<close>

definition debounceDelay :: duration where
  "debounceDelay = 300 * 1000000"

text \<open>\<open>New\<close>: \<open>absolute\<close> is the answer of \<open>filepath.Abs\<close>, \<open>notify\<close> that of
  \<open>fsnotify.NewWatcher\<close>, \<open>add\<close> watches a directory.\<close>

definition New_watcher :: "gerr + string \<Rightarrow> gerr option \<Rightarrow> (string \<Rightarrow> gerr option) \<Rightarrow> time \<Rightarrow> gerr + watcher" where
  "New_watcher absolute notify add now =
     (case absolute of Inl err \<Rightarrow> Inl err | Inr path \<Rightarrow>
     (case notify of Some err \<Rightarrow> Inl err | None \<Rightarrow>
     (case add (Dir path) of Some err \<Rightarrow> Inl err
      | None \<Rightarrow> Inr \<lparr>wa_path = Clean path, wa_running = True, wa_deadline = None,
          wa_now = now, wa_history = []\<rparr>)))"

definition relevant :: "watcher \<Rightarrow> string \<Rightarrow> fs_op list \<Rightarrow> bool" where
  "relevant w name ops \<longleftrightarrow> Clean name = wa_path w \<and> list_ex (\<lambda>op. op \<in> {OpWrite, OpCreate, OpRename}) ops"

definition on_event :: "string \<Rightarrow> fs_op list \<Rightarrow> time \<Rightarrow> watcher \<Rightarrow> watcher" where
  "on_event name ops t w =
     (if relevant w name ops
      then w\<lparr>wa_deadline := Some (t + debounceDelay), wa_now := t, wa_history := wa_history w @ [(True, t)]\<rparr>
      else w\<lparr>wa_now := t\<rparr>)"

definition on_timer :: "time \<Rightarrow> watcher \<Rightarrow> watcher" where
  "on_timer t w = w\<lparr>wa_deadline := None, wa_now := t, wa_history := wa_history w @ [(False, t)]\<rparr>"

inductive watch_step :: "watcher \<Rightarrow> watcher \<Rightarrow> bool" where
  event: "wa_running w \<Longrightarrow> wa_now w \<le> t \<Longrightarrow> watch_step w (on_event name ops t w)"
| timer: "wa_running w \<Longrightarrow> wa_now w \<le> t \<Longrightarrow> wa_deadline w = Some d \<Longrightarrow> d \<le> t \<Longrightarrow> watch_step w (on_timer t w)"
| problem: "wa_running w \<Longrightarrow> wa_now w \<le> t \<Longrightarrow> watch_step w (w\<lparr>wa_now := t\<rparr>)"
| stop: "wa_running w \<Longrightarrow> watch_step w (w\<lparr>wa_running := False\<rparr>)"

inductive_cases watch_stepE: "watch_step w w'"

section \<open>Debouncing\<close>

text \<open>A history is debounced when every reload directly follows a change that is at least the
  delay older: no change comes between, and two reloads have a change between them.  The
  function looks at the reversed history.\<close>

fun debounced_rev :: "(bool \<times> time) list \<Rightarrow> bool" where
  "debounced_rev [] = True"
| "debounced_rev [(change, t)] = change"
| "debounced_rev ((change, t) # (before, s) # h) =
     ((change \<or> before \<and> s + debounceDelay \<le> t) \<and> debounced_rev ((before, s) # h))"

definition debounced :: "(bool \<times> time) list \<Rightarrow> bool" where
  "debounced h = debounced_rev (rev h)"

definition pending_reload :: "(bool \<times> time) list \<Rightarrow> time option" where
  "pending_reload h = (if h \<noteq> [] \<and> fst (last h) then Some (snd (last h) + debounceDelay) else None)"

lemma debounced_Nil [simp]: "debounced []"
  by (simp add: debounced_def)

lemma debounced_snoc:
  "debounced (h @ [(change, t)]) \<longleftrightarrow>
     debounced h \<and> (change \<or> (\<exists>c d. h = c @ [(True, d)] \<and> d + debounceDelay \<le> t))"
proof (cases h rule: rev_cases)
  case (snoc a x)
  then show ?thesis by (cases x) (auto simp: debounced_def)
qed (simp add: debounced_def)

definition watch_inv :: "watcher \<Rightarrow> bool" where
  "watch_inv w \<longleftrightarrow> debounced (wa_history w) \<and> sorted (map snd (wa_history w))
     \<and> (\<forall>x \<in> set (wa_history w). snd x \<le> wa_now w)
     \<and> wa_deadline w = pending_reload (wa_history w)"

lemma watch_inv_step: "watch_step w w' \<Longrightarrow> watch_inv w \<Longrightarrow> watch_inv w'"
proof (induction rule: watch_step.induct)
  case (event w t name ops)
  then show ?case
    by (force simp: watch_inv_def on_event_def debounced_snoc pending_reload_def sorted_append)
next
  case (timer w t d)
  then obtain c s where h: "wa_history w = c @ [(True, s)]" "d = s + debounceDelay"
    by (cases "wa_history w" rule: rev_cases) (auto simp: watch_inv_def pending_reload_def split: if_splits)
  have le: "snd x \<le> t" if "x \<in> set (wa_history w)" for x
    using timer(2,5) that by (auto simp: watch_inv_def intro: order_trans)
  have "debounced (wa_history w @ [(False, t)])"
    using timer(4,5) h unfolding debounced_snoc [of "wa_history w"] by (auto simp: watch_inv_def)
  moreover have "sorted (map snd (wa_history w @ [(False, t)]))"
    using timer(5) le by (auto simp: watch_inv_def sorted_append)
  ultimately show ?case
    using le by (auto simp: watch_inv_def on_timer_def pending_reload_def)
next
  case (problem w t)
  then show ?case by (force simp: watch_inv_def)
next
  case (stop w)
  then show ?case by (simp add: watch_inv_def)
qed

lemma watch_inv_reachable:
  "watch_step\<^sup>*\<^sup>* w w' \<Longrightarrow> watch_inv w \<Longrightarrow> watch_inv w'"
  by (induction rule: rtranclp_induct) (auto intro: watch_inv_step)

section \<open>Property\<close>

text \<open>C20. Reloads are debounced and no change is forgotten.  Whatever events come in whatever order,
  every reload follows a change of the configuration file by at least the delay, with no other
  change between them, and no change causes two reloads; and as long as the watcher runs and the
  last thing that happened is a change, a reload is pending and can be taken from the end of the
  delay on.\<close>

theorem reloads_are_debounced:
  assumes "New_watcher absolute notify add t0 = Inr w0" "watch_step\<^sup>*\<^sup>* w0 w"
  shows "debounced (wa_history w) \<and> sorted (map snd (wa_history w))
    \<and> wa_deadline w = pending_reload (wa_history w)
    \<and> (\<forall>h c t. wa_history w = h @ [(True, c)] \<longrightarrow> wa_running w \<longrightarrow> max (wa_now w) (c + debounceDelay) \<le> t
        \<longrightarrow> watch_step w (on_timer t w))"
proof -
  have "watch_inv w0"
    using assms(1) by (auto simp: watch_inv_def New_watcher_def pending_reload_def split: sum.splits option.splits)
  then have w: "watch_inv w" by (rule watch_inv_reachable [OF assms(2)])
  then have "watch_step w (on_timer t w)"
    if "wa_history w = h @ [(True, c)]" "wa_running w" "max (wa_now w) (c + debounceDelay) \<le> t" for h c t
    using that w by (intro watch_step.timer) (auto simp: watch_inv_def pending_reload_def)
  with w show ?thesis by (simp add: watch_inv_def)
qed

definition example_watcher :: watcher where
  "example_watcher = \<lparr>wa_path = ''/etc/c.yaml'', wa_running = True, wa_deadline = None, wa_now = 0, wa_history = []\<rparr>"

theorem reloads_are_debounced_witness:
  "debounced (wa_history (on_timer 300000005 (on_event ''/etc/c.yaml'' [OpWrite] 5 example_watcher)))"
proof -
  have clean: "Clean ''/etc/c.yaml'' = ''/etc/c.yaml''" by code_simp
  then have new: "New_watcher (Inr ''/etc/c.yaml'') None (\<lambda>dir. None) 0 = Inr example_watcher"
    by (simp add: New_watcher_def example_watcher_def)
  have rel: "relevant example_watcher ''/etc/c.yaml'' [OpWrite]"
    by (simp add: relevant_def example_watcher_def clean)
  have 1: "watch_step example_watcher (on_event ''/etc/c.yaml'' [OpWrite] 5 example_watcher)"
    by (rule watch_step.event) (simp_all add: example_watcher_def)
  have 2: "watch_step (on_event ''/etc/c.yaml'' [OpWrite] 5 example_watcher)
      (on_timer 300000005 (on_event ''/etc/c.yaml'' [OpWrite] 5 example_watcher))"
    using rel by (intro watch_step.timer [where d = 300000005])
      (simp_all add: example_watcher_def on_event_def debounceDelay_def)
  have "watch_step\<^sup>*\<^sup>* example_watcher (on_timer 300000005 (on_event ''/etc/c.yaml'' [OpWrite] 5 example_watcher))"
    using 1 2 by (meson converse_rtranclp_into_rtranclp r_into_rtranclp)
  from reloads_are_debounced [OF new this] show ?thesis by (rule conjunct1)
qed

end
